theory Spec2Isabelle
  imports Main "HOL-Library.Word" "HOL-Library.Sublist"
begin

section \<open>Dataset.py: download and unpack the archives of a metalink manifest\<close>

text \<open>
  The script parses \<^verbatim>\<open>Dataset.meta4\<close>, creates the folders \<^verbatim>\<open>downloads\<close> and
  \<^verbatim>\<open>data\<close>, and for every \<^verbatim>\<open>file\<close> element downloads the URL to
  \<^verbatim>\<open>downloads/NAME\<close> and unpacks it below \<^verbatim>\<open>data/\<close>. The embedding follows
  the three parts of the source (\<^verbatim>\<open>download_file\<close>, \<^verbatim>\<open>extract_zip\<close>, the
  top-level loop). What the script calls from libraries (\<^verbatim>\<open>os.path\<close>, \<^verbatim>\<open>int\<close>,
  \<^verbatim>\<open>open\<close>, \<^verbatim>\<open>os.makedirs\<close>, \<^verbatim>\<open>zipfile\<close>) is modelled after the POSIX
  versions of those libraries; the network and the zip decoder are parameters.
\<close>

subsection \<open>Bytes and errors\<close>

type_synonym byte = "8 word"
type_synonym bytes = "byte list"

text \<open>
  Every exception the script can meet ends the run, so only its class is kept:
  \<open>FileNotFoundError\<close> and \<open>ParseError\<close> (\<^verbatim>\<open>ET.parse\<close> of a missing manifest, and
  of one that is not XML), \<open>AttributeError\<close> (\<^verbatim>\<open>.text\<close> of a missing
  \<^verbatim>\<open>url\<close> element), \<open>TypeError\<close> (\<^verbatim>\<open>os.path.join\<close> with a missing name),
  \<open>RequestException\<close> (\<^verbatim>\<open>requests.get\<close> raises), \<open>ChunkedEncodingError\<close> (the body
  breaks off while it is streamed), \<open>ValueError\<close> (\<^verbatim>\<open>int\<close>), \<open>OSError\<close> (\<^verbatim>\<open>open\<close>,
  \<^verbatim>\<open>os.makedirs\<close>, writing a member), \<open>BadZipFile\<close>, \<open>OverflowError\<close> (drawing
  the progress bar).
\<close>

datatype error =
    FileNotFoundError | ParseError | AttributeError | TypeError | RequestException | ChunkedEncodingError
  | ValueError | OSError | BadZipFile | OverflowError

subsection \<open>\<^verbatim>\<open>os.path\<close> (posixpath)\<close>

text \<open>\<^verbatim>\<open>s.rfind(c)\<close>: the index of the last occurrence of \<open>c\<close>, or \<open>-1\<close>.\<close>

fun rfind :: "char \<Rightarrow> string \<Rightarrow> int" where
  "rfind c [] = - 1"
| "rfind c (x # xs) =
     (let r = rfind c xs in if 0 \<le> r then r + 1 else if x = c then 0 else - 1)"

text \<open>
  \<^verbatim>\<open>os.path.join(a, b)\<close> for two arguments: an absolute \<open>b\<close> replaces \<open>a\<close>; otherwise
  \<open>b\<close> is appended, after a separator unless \<open>a\<close> is empty or ends with one.
\<close>

definition join :: "string \<Rightarrow> string \<Rightarrow> string" where
  "join a b =
     (if b \<noteq> [] \<and> hd b = CHR ''/'' then b
      else if a = [] \<or> last a = CHR ''/'' then a @ b
      else a @ ''/'' @ b)"

text \<open>\<^verbatim>\<open>os.path.basename(p)\<close> is \<^verbatim>\<open>p[p.rfind('/') + 1:]\<close>.\<close>

definition basename :: "string \<Rightarrow> string" where
  "basename p = drop (nat (rfind CHR ''/'' p + 1)) p"

text \<open>
  \<^verbatim>\<open>os.path.splitext(p)\<close>: the path is cut at its last dot when that dot lies in the
  last component and some character of the component before the dot is not a dot
  (leading dots do not start an extension).
\<close>

definition splitext :: "string \<Rightarrow> string \<times> string" where
  "splitext p =
     (let sepIndex = rfind CHR ''/'' p;
          dotIndex = rfind CHR ''.'' p
      in if sepIndex < dotIndex \<and>
            list_ex (\<lambda>c. c \<noteq> CHR ''.'')
              (take (nat (dotIndex - (sepIndex + 1))) (drop (nat (sepIndex + 1)) p))
         then (take (nat dotIndex) p, drop (nat dotIndex) p)
         else (p, []))"

text \<open>\<^verbatim>\<open>p.split('/')\<close>: the components of a path, empty ones included.\<close>

fun split_sep :: "string \<Rightarrow> string list" where
  "split_sep [] = [[]]"
| "split_sep (c # cs) =
     (if c = CHR ''/'' then [] # split_sep cs
      else (case split_sep cs of [] \<Rightarrow> [[c]] | x # xs \<Rightarrow> (c # x) # xs))"

subsection \<open>\<^verbatim>\<open>int\<close> of a header value\<close>

text \<open>
  \<^verbatim>\<open>int(s)\<close> for a \<^verbatim>\<open>str\<close> whose characters are below 256 (header values are decoded
  as Latin-1): white space around the literal is dropped, one sign is allowed, then
  decimal digits, with single underscores between digits. An interpreter with a digit
  limit \<open>lim > 0\<close> (\<^verbatim>\<open>sys.get_int_max_str_digits()\<close>, 4300 by default since 3.11)
  refuses a literal with more digits.
\<close>

definition isspace :: "char \<Rightarrow> bool" where
  "isspace c = (let k = (of_char c :: nat) in (9 \<le> k \<and> k \<le> 13) \<or> k = 32 \<or> k = 133 \<or> k = 160)"

definition isdigit :: "char \<Rightarrow> bool" where
  "isdigit c = (let k = (of_char c :: nat) in 48 \<le> k \<and> k \<le> 57)"

definition strip :: "string \<Rightarrow> string" where
  "strip s = rev (dropWhile isspace (rev (dropWhile isspace s)))"

fun digits_ok :: "string \<Rightarrow> bool" where
  "digits_ok [] = False"
| "digits_ok [c] = isdigit c"
| "digits_ok (c # d # r) =
     (isdigit c \<and> (if d = CHR ''_'' then digits_ok r else digits_ok (d # r)))"

definition digits_value :: "string \<Rightarrow> int" where
  "digits_value ds = foldl (\<lambda>a c. 10 * a + (int (of_char c) - 48)) 0 ds"

definition py_int :: "nat \<Rightarrow> string \<Rightarrow> error + int" where
  "py_int lim s =
     (let t = strip s;
          neg = (t \<noteq> [] \<and> hd t = CHR ''-'');
          body = (if t \<noteq> [] \<and> (hd t = CHR ''-'' \<or> hd t = CHR ''+'') then tl t else t);
          ds = filter (\<lambda>c. c \<noteq> CHR ''_'') body
      in if \<not> digits_ok body then Inl ValueError
         else if 0 < lim \<and> lim < length ds then Inl ValueError
         else Inr (if neg then - digits_value ds else digits_value ds))"

subsection \<open>The file system\<close>

text \<open>
  A node is named by the components of its absolute path; it is a directory or a regular
  file with its contents. Symbolic links, permissions and a full disk are not modelled.
\<close>

type_synonym node = "string list"

datatype inode = Dir | File bytes

type_synonym fsmap = "node \<Rightarrow> inode option"

text \<open>A relative path starts at the working directory, an absolute one at the root.\<close>

definition start :: "node \<Rightarrow> string \<Rightarrow> node" where
  "start wd p = (if p \<noteq> [] \<and> hd p = CHR ''/'' then [] else wd)"

text \<open>
  Path resolution through existing directories: empty components and \<^verbatim>\<open>.\<close> stay,
  \<^verbatim>\<open>..\<close> goes up (the root is its own parent), a name must be a directory.
\<close>

fun walk :: "fsmap \<Rightarrow> node \<Rightarrow> string list \<Rightarrow> node option" where
  "walk f cur [] = Some cur"
| "walk f cur (c # cs) =
     (if c = [] \<or> c = ''.'' then walk f cur cs
      else if c = ''..'' then walk f (butlast cur) cs
      else if f (cur @ [c]) = Some Dir then walk f (cur @ [c]) cs
      else None)"

text \<open>
  The node a path names as a file: its directory part must resolve, and its last
  component must be a proper name.
\<close>

definition locate :: "node \<Rightarrow> string \<Rightarrow> fsmap \<Rightarrow> node option" where
  "locate cur p f =
     (let cs = split_sep p; l = last cs
      in if l = [] \<or> l = ''.'' \<or> l = ''..'' then None
         else (case walk f cur (butlast cs) of None \<Rightarrow> None | Some d \<Rightarrow> Some (d @ [l])))"

text \<open>\<^verbatim>\<open>open(p, 'wb')\<close>: creates or truncates the file; a directory cannot be opened.\<close>

definition open_wb :: "node \<Rightarrow> string \<Rightarrow> fsmap \<Rightarrow> error + (node \<times> fsmap)" where
  "open_wb cur p f =
     (case locate cur p f of
        None \<Rightarrow> Inl OSError
      | Some t \<Rightarrow> (case f t of Some Dir \<Rightarrow> Inl OSError | _ \<Rightarrow> Inr (t, f(t \<mapsto> File []))))"

text \<open>\<^verbatim>\<open>file.write(chunk)\<close> on the open file \<open>t\<close>.\<close>

definition file_write :: "node \<Rightarrow> bytes \<Rightarrow> fsmap \<Rightarrow> fsmap" where
  "file_write t chunk f = f(t \<mapsto> File ((case f t of Some (File old) \<Rightarrow> old | _ \<Rightarrow> []) @ chunk))"

text \<open>Opening a file for reading, as \<^verbatim>\<open>zipfile.ZipFile(p, 'r')\<close> does.\<close>

definition read_file :: "node \<Rightarrow> string \<Rightarrow> fsmap \<Rightarrow> error + bytes" where
  "read_file cur p f =
     (case locate cur p f of
        None \<Rightarrow> Inl OSError
      | Some t \<Rightarrow> (case f t of Some (File b) \<Rightarrow> Inr b | _ \<Rightarrow> Inl OSError))"

text \<open>
  Creating a directory and the missing ones above it, an existing directory being no
  error (\<^verbatim>\<open>exist_ok=True\<close>); a regular file in the way is one. The directories made
  before the failure stay.
\<close>

fun mknodes :: "node \<Rightarrow> string list \<Rightarrow> fsmap \<Rightarrow> (error + node) \<times> fsmap" where
  "mknodes cur [] f = (Inr cur, f)"
| "mknodes cur (c # cs) f =
     (if c = [] \<or> c = ''.'' then mknodes cur cs f
      else if c = ''..'' then mknodes (butlast cur) cs f
      else (case f (cur @ [c]) of
              Some (File b) \<Rightarrow> (Inl OSError, f)
            | _ \<Rightarrow> mknodes (cur @ [c]) cs (f(cur @ [c] \<mapsto> Dir))))"

subsection \<open>\<^verbatim>\<open>zipfile\<close>: extracting the members of an archive\<close>

text \<open>
  A member is its name in the archive and its contents; a name ending in a slash is a
  directory. \<^verbatim>\<open>_extract_member\<close> drops the empty, \<^verbatim>\<open>.\<close> and \<^verbatim>\<open>..\<close> components of
  the name, makes the directories above the target and writes the file. Members are
  taken to be readable (no encryption, no checksum error).
\<close>

type_synonym member = "string \<times> bytes"

definition arcname :: "string \<Rightarrow> string list" where
  "arcname filename = filter (\<lambda>x. x \<noteq> [] \<and> x \<noteq> ''.'' \<and> x \<noteq> ''..'') (split_sep filename)"

definition is_dir :: "string \<Rightarrow> bool" where
  "is_dir filename = (filename \<noteq> [] \<and> last filename = CHR ''/'')"

definition extract_member :: "node \<Rightarrow> member \<Rightarrow> fsmap \<Rightarrow> (error + unit) \<times> fsmap" where
  "extract_member base m f =
     (let cs = arcname (fst m)
      in if is_dir (fst m) then
           (case mknodes base cs f of (Inl e, f1) \<Rightarrow> (Inl e, f1) | (Inr d, f1) \<Rightarrow> (Inr (), f1))
         else if cs = [] then (Inl OSError, f)
         else (case mknodes base (butlast cs) f of
                 (Inl e, f1) \<Rightarrow> (Inl e, f1)
               | (Inr d, f1) \<Rightarrow>
                   (case f1 (d @ [last cs]) of
                      Some Dir \<Rightarrow> (Inl OSError, f1)
                    | _ \<Rightarrow> (Inr (), f1(d @ [last cs] \<mapsto> File (snd m))))))"

fun extractall :: "node \<Rightarrow> member list \<Rightarrow> fsmap \<Rightarrow> (error + unit) \<times> fsmap" where
  "extractall base [] f = (Inr (), f)"
| "extractall base (m # ms) f =
     (case extract_member base m f of
        (Inl e, f1) \<Rightarrow> (Inl e, f1)
      | (Inr u, f1) \<Rightarrow> extractall base ms f1)"

subsection \<open>The environment and the observable state\<close>

text \<open>
  What \<^verbatim>\<open>requests.get(url, stream=True)\<close> returns: the status line, the value of the
  \<^verbatim>\<open>content-length\<close> header when there is one, the chunks \<^verbatim>\<open>iter_content\<close> yields,
  and whether the stream breaks off after them.
\<close>

record response =
  status_code :: nat
  content_length :: "string option"
  chunks :: "bytes list"
  broken :: bool

text \<open>
  The environment of a run: the network (\<open>None\<close> when \<^verbatim>\<open>requests.get\<close> raises), the
  zip decoder (\<open>None\<close> for \<^verbatim>\<open>BadZipFile\<close>), the working directory and the
  interpreter's digit limit for \<^verbatim>\<open>int\<close> (0 for none).
\<close>

record env =
  net :: "string \<Rightarrow> response option"
  unzip :: "bytes \<Rightarrow> member list option"
  cwd :: node
  int_max_str_digits :: nat

text \<open>A \<^verbatim>\<open>tqdm\<close> progress bar: its total, its count and its label.\<close>

record bar =
  bar_total :: int
  bar_n :: nat
  bar_desc :: string

text \<open>
  The calls of the loop are recorded as they begin and as they return; a call that
  raises leaves its \<open>Begin\<close> without an \<open>End\<close>.
\<close>

datatype op = Download "string option" string | Extract string string

datatype event = Begin op | End op

record world =
  fs :: fsmap
  bars :: "bar list"
  console :: "string list"
  trace :: "event list"

subsection \<open>\<^verbatim>\<open>download_file\<close>\<close>

definition total_size :: "nat \<Rightarrow> response \<Rightarrow> error + int" where
  "total_size lim response =
     (case content_length response of None \<Rightarrow> Inr 0 | Some v \<Rightarrow> py_int lim v)"

fun iter_content :: "node \<Rightarrow> bytes list \<Rightarrow> bar \<times> fsmap \<Rightarrow> bar \<times> fsmap" where
  "iter_content t [] s = s"
| "iter_content t (chunk # rest) (b, f) =
     iter_content t rest
       (if chunk \<noteq> [] then (b\<lparr>bar_n := bar_n b + length chunk\<rparr>, file_write t chunk f)
        else (b, f))"

text \<open>
  \<^verbatim>\<open>tqdm\<close> draws the bar as soon as it is made, and to draw it compares the count
  with \<^verbatim>\<open>total + 0.5\<close>: a total that no \<^verbatim>\<open>float\<close> can hold (from
  \<^verbatim>\<open>2**1024 - 2**970\<close> on, in absolute value) raises \<^verbatim>\<open>OverflowError\<close>.
\<close>

definition total_fits :: "int \<Rightarrow> bool" where
  "total_fits n = (\<bar>n\<bar> < 2 ^ 1024 - 2 ^ 970)"

text \<open>
  \<^verbatim>\<open>requests.get(None)\<close> raises (no scheme), like any failed request. The status code
  of the response is not looked at. The header is converted before the file is opened,
  and the bar is made after: when making the bar raises, the file is there and empty.
\<close>

definition download_file :: "env \<Rightarrow> string option \<Rightarrow> string \<Rightarrow> world \<Rightarrow> (error + unit) \<times> world" where
  "download_file E url destination_path w =
     (case (case url of None \<Rightarrow> None | Some u \<Rightarrow> net E u) of
        None \<Rightarrow> (Inl RequestException, w)
      | Some response \<Rightarrow>
          (case total_size (int_max_str_digits E) response of
             Inl e \<Rightarrow> (Inl e, w)
           | Inr tsize \<Rightarrow>
               (case open_wb (start (cwd E) destination_path) destination_path (fs w) of
                  Inl e \<Rightarrow> (Inl e, w)
                | Inr (t, f1) \<Rightarrow>
                    (if \<not> total_fits tsize then (Inl OverflowError, w\<lparr>fs := f1\<rparr>)
                     else (case iter_content t (chunks response)
                                 (\<lparr>bar_total = tsize, bar_n = 0,
                                   bar_desc = basename destination_path\<rparr>, f1) of
                             (b, f2) \<Rightarrow>
                               (if broken response then Inl ChunkedEncodingError else Inr (),
                                w\<lparr>fs := f2, bars := bars w @ [b]\<rparr>))))))"

subsection \<open>\<^verbatim>\<open>extract_zip\<close>\<close>

definition makedirs :: "env \<Rightarrow> string \<Rightarrow> world \<Rightarrow> (error + node) \<times> world" where
  "makedirs E p w =
     (if p = [] then (Inl OSError, w)
      else (case mknodes (start (cwd E) p) (split_sep p) (fs w) of
              (r, f1) \<Rightarrow> (r, w\<lparr>fs := f1\<rparr>)))"

text \<open>The folder an archive is unpacked into: the destination joined with the archive's
  base name without its extension.\<close>

definition zip_name :: "string \<Rightarrow> string" where
  "zip_name zip_path = fst (splitext (basename zip_path))"

definition extract_to :: "string \<Rightarrow> string \<Rightarrow> string" where
  "extract_to zip_path destination_folder = join destination_folder (zip_name zip_path)"

definition extract_zip :: "env \<Rightarrow> string \<Rightarrow> string \<Rightarrow> world \<Rightarrow> (error + unit) \<times> world" where
  "extract_zip E zip_path destination_folder w =
     (case makedirs E (extract_to zip_path destination_folder) w of
        (Inl e, w1) \<Rightarrow> (Inl e, w1)
      | (Inr base, w1) \<Rightarrow>
          (case read_file (start (cwd E) zip_path) zip_path (fs w1) of
             Inl e \<Rightarrow> (Inl e, w1)
           | Inr content \<Rightarrow>
               (case unzip E content of
                  None \<Rightarrow> (Inl BadZipFile, w1)
                | Some ms \<Rightarrow>
                    (case extractall base ms (fs w1) of
                       (Inl e, f2) \<Rightarrow> (Inl e, w1\<lparr>fs := f2\<rparr>)
                     | (Inr u, f2) \<Rightarrow>
                         (Inr (),
                          w1\<lparr>fs := f2,
                             console := console w1 @
                               [''Extracted: '' @ zip_path @ '' to '' @
                                extract_to zip_path destination_folder]\<rparr>)))))"

subsection \<open>The script\<close>

text \<open>
  A \<^verbatim>\<open>file\<close> element of the parsed manifest: its \<^verbatim>\<open>name\<close> attribute when it has one,
  and the text of its first \<^verbatim>\<open>url\<close> child when it has one (the text of an empty element
  is \<^verbatim>\<open>None\<close>).
\<close>

record file_elem =
  name_attr :: "string option"
  url_elem :: "string option option"

definition file_path :: "string \<Rightarrow> string" where
  "file_path file_name = join ''downloads'' file_name"

definition process_file :: "env \<Rightarrow> file_elem \<Rightarrow> world \<Rightarrow> (error + unit) \<times> world" where
  "process_file E file w =
     (case url_elem file of
        None \<Rightarrow> (Inl AttributeError, w)
      | Some url \<Rightarrow>
          (case name_attr file of
             None \<Rightarrow> (Inl TypeError, w)
           | Some file_name \<Rightarrow>
               (case download_file E url (file_path file_name)
                       (w\<lparr>trace := trace w @ [Begin (Download url (file_path file_name))]\<rparr>) of
                  (Inl e, w1) \<Rightarrow> (Inl e, w1)
                | (Inr u, w1) \<Rightarrow>
                    (case extract_zip E (file_path file_name) ''data''
                            (w1\<lparr>trace := trace w1 @
                               [End (Download url (file_path file_name)),
                                Begin (Extract (file_path file_name) ''data'')]\<rparr>) of
                       (Inl e, w2) \<Rightarrow> (Inl e, w2)
                     | (Inr u, w2) \<Rightarrow>
                         (Inr (),
                          w2\<lparr>trace := trace w2 @
                               [End (Extract (file_path file_name) ''data'')]\<rparr>)))))"

fun main_loop :: "env \<Rightarrow> file_elem list \<Rightarrow> world \<Rightarrow> (error + unit) \<times> world" where
  "main_loop E [] w = (Inr (), w)"
| "main_loop E (file # rest) w =
     (case process_file E file w of
        (Inl e, w1) \<Rightarrow> (Inl e, w1)
      | (Inr u, w1) \<Rightarrow> main_loop E rest w1)"

text \<open>
  The whole script, given what \<^verbatim>\<open>root.findall("ml:file", namespace)\<close> yields, or
  the exception \<^verbatim>\<open>ET.parse\<close> raises (the manifest is missing or is not XML).
\<close>

definition main :: "env \<Rightarrow> error + file_elem list \<Rightarrow> world \<Rightarrow> (error + unit) \<times> world" where
  "main E doc w =
     (case doc of
        Inl e \<Rightarrow> (Inl e, w)
      | Inr files \<Rightarrow>
          (case makedirs E ''downloads'' w of
             (Inl e, w1) \<Rightarrow> (Inl e, w1)
           | (Inr d1, w1) \<Rightarrow>
               (case makedirs E ''data'' w1 of
                  (Inl e, w2) \<Rightarrow> (Inl e, w2)
                | (Inr d2, w2) \<Rightarrow>
                    (case main_loop E files w2 of
                       (Inl e, w3) \<Rightarrow> (Inl e, w3)
                     | (Inr u, w3) \<Rightarrow>
                         (Inr (),
                          w3\<lparr>console := console w3 @
                               [''Download and extraction complete.'']\<rparr>)))))"

subsection \<open>Notions used in the statements\<close>

text \<open>
  Where a relative path leads, read from its components alone: \<open>None\<close> when it climbs
  above the working directory.
\<close>

fun collapse :: "string list \<Rightarrow> string list \<Rightarrow> string list option" where
  "collapse acc [] = Some acc"
| "collapse acc (c # cs) =
     (if c = [] \<or> c = ''.'' then collapse acc cs
      else if c = ''..'' then (if acc = [] then None else collapse (butlast acc) cs)
      else collapse (acc @ [c]) cs)"

text \<open>A path that leads to something inside the folder \<^verbatim>\<open>downloads\<close> of the working directory.\<close>

definition below_downloads :: "string \<Rightarrow> bool" where
  "below_downloads p =
     ((p = [] \<or> hd p \<noteq> CHR ''/'') \<and>
      (case collapse [] (split_sep p) of
         Some (d # x # xs) \<Rightarrow> d = ''downloads''
       | _ \<Rightarrow> False))"

text \<open>
  What a path names: nothing, a directory or a regular file. \<open>fs_le f g\<close>: every node
  of \<open>f\<close> is still there in \<open>g\<close>, and of the same kind (its contents may differ).
\<close>

datatype kind = Absent | Folder | Regular

fun kind_of :: "inode option \<Rightarrow> kind" where
  "kind_of None = Absent"
| "kind_of (Some Dir) = Folder"
| "kind_of (Some (File b)) = Regular"

definition fs_le :: "fsmap \<Rightarrow> fsmap \<Rightarrow> bool" where
  "fs_le f g = (\<forall>t. kind_of (f t) = Absent \<or> kind_of (g t) = kind_of (f t))"

text \<open>The same run against servers that send the same bodies with another
  \<^verbatim>\<open>content-length\<close> header.\<close>

definition with_header :: "string option \<Rightarrow> env \<Rightarrow> env" where
  "with_header h E = E\<lparr>net := (\<lambda>u. map_option (\<lambda>r. r\<lparr>content_length := h\<rparr>) (net E u))\<rparr>"

text \<open>
  A header value \<^verbatim>\<open>int\<close> accepts, of a size a body can have (below \<^verbatim>\<open>2**64\<close>), or
  no header.
\<close>

definition header_ok :: "nat \<Rightarrow> string option \<Rightarrow> bool" where
  "header_ok lim h =
     (case h of
        None \<Rightarrow> True
      | Some v \<Rightarrow> (case py_int lim v of Inl e \<Rightarrow> False | Inr n \<Rightarrow> \<bar>n\<bar> < 2 ^ 64))"

text \<open>A header value \<^verbatim>\<open>int\<close> rejects, and one it accepts but no \<^verbatim>\<open>float\<close> can hold.\<close>

definition header_rejected :: "nat \<Rightarrow> string option \<Rightarrow> bool" where
  "header_rejected lim h =
     (case h of
        None \<Rightarrow> False
      | Some v \<Rightarrow> (case py_int lim v of Inl e \<Rightarrow> True | Inr n \<Rightarrow> False))"

definition header_overflows :: "nat \<Rightarrow> string option \<Rightarrow> bool" where
  "header_overflows lim h =
     (case h of
        None \<Rightarrow> False
      | Some v \<Rightarrow> (case py_int lim v of Inl e \<Rightarrow> False | Inr n \<Rightarrow> \<not> total_fits n))"

text \<open>
  What a \<^verbatim>\<open>file\<close> element leaves for the operator to see when it is processed: the
  label of its progress bar, and the line its extraction prints.
\<close>

definition label :: "file_elem \<Rightarrow> string" where
  "label x = (case name_attr x of None \<Rightarrow> [] | Some file_name \<Rightarrow> basename (file_path file_name))"

definition extracted_line :: "file_elem \<Rightarrow> string" where
  "extracted_line x =
     (case name_attr x of
        None \<Rightarrow> []
      | Some file_name \<Rightarrow>
          ''Extracted: '' @ file_path file_name @ '' to '' @
          extract_to (file_path file_name) ''data'')"

text \<open>The calls the loop makes for one \<^verbatim>\<open>file\<close> element when nothing raises.\<close>

definition calls_of :: "file_elem \<Rightarrow> event list" where
  "calls_of file =
     (case (url_elem file, name_attr file) of
        (Some url, Some file_name) \<Rightarrow>
          [Begin (Download url (file_path file_name)), End (Download url (file_path file_name)),
           Begin (Extract (file_path file_name) ''data''),
           End (Extract (file_path file_name) ''data'')]
      | _ \<Rightarrow> [])"

text \<open>The outputs of an element are in place: its artifact is a regular file and its
  extraction folder is a directory.\<close>

definition has_outputs :: "env \<Rightarrow> fsmap \<Rightarrow> file_elem \<Rightarrow> bool" where
  "has_outputs E f file =
     (case name_attr file of
        None \<Rightarrow> False
      | Some file_name \<Rightarrow>
          (case locate (start (cwd E) (file_path file_name)) (file_path file_name) f of
             None \<Rightarrow> False
           | Some t \<Rightarrow> kind_of (f t) = Regular) \<and>
          walk f (start (cwd E) (extract_to (file_path file_name) ''data''))
            (split_sep (extract_to (file_path file_name) ''data'')) \<noteq> None)"

text \<open>The smallest zip archive: an end-of-central-directory record and no member.\<close>

definition empty_zip :: bytes where
  "empty_zip = [80, 75, 5, 6, 0, 0, 0, 0, 0, 0, 0, 0, 0, 0, 0, 0, 0, 0, 0, 0, 0, 0]"

text \<open>
  A run to try the statements on: four servers' answers (the second with status 404 and
  an archive as its body, the third with status 404 and the body \<^verbatim>\<open>Not Found\<close>), a
  decoder that knows the two archives, and the file system before and after the two
  folders are made.
\<close>

text \<open>An archive with one stored member \<^verbatim>\<open>x\<close> holding the two bytes \<^verbatim>\<open>hi\<close>.\<close>

definition hi_zip :: bytes where
  "hi_zip =
     [80, 75, 3, 4, 20, 0, 0, 0, 0, 0, 0, 0, 33, 0, 172, 42, 147, 216, 2, 0, 0, 0, 2, 0, 0, 0,
      1, 0, 0, 0, 120, 104, 105, 80, 75, 1, 2, 20, 3, 20, 0, 0, 0, 0, 0, 0, 0, 33, 0, 172, 42,
      147, 216, 2, 0, 0, 0, 2, 0, 0, 0, 1, 0, 0, 0, 0, 0, 0, 0, 0, 0, 0, 0, 128, 1, 0, 0, 0, 0,
      120, 80, 75, 5, 6, 0, 0, 0, 0, 1, 0, 1, 0, 47, 0, 0, 0, 33, 0, 0, 0, 0, 0]"

definition example_net :: "string \<Rightarrow> response option" where
  "example_net u =
     (if u = ''http://host/a.zip'' then
        Some \<lparr>status_code = 200, content_length = None,
              chunks = [take 10 empty_zip, [], drop 10 empty_zip], broken = False\<rparr>
      else if u = ''http://host/b.zip'' then
        Some \<lparr>status_code = 404, content_length = Some ''22'',
              chunks = [empty_zip], broken = False\<rparr>
      else if u = ''http://host/c.zip'' then
        Some \<lparr>status_code = 404, content_length = Some ''9'',
              chunks = [[78, 111, 116, 32, 70, 111, 117, 110, 100]], broken = False\<rparr>
      else if u = ''http://host/example.zip'' then
        Some \<lparr>status_code = 200, content_length = Some ''102'',
              chunks = [take 64 hi_zip, drop 64 hi_zip], broken = False\<rparr>
      else None)"

definition example_env :: env where
  "example_env =
     \<lparr>net = example_net,
      unzip = (\<lambda>b. if b = empty_zip then Some []
                   else if b = hi_zip then Some [(''x'', [104, 105])] else None),
      cwd = [''work''], int_max_str_digits = 4300\<rparr>"

definition fresh_world :: world where
  "fresh_world = \<lparr>fs = [[''work''] \<mapsto> Dir], bars = [], console = [], trace = []\<rparr>"

definition ready_world :: world where
  "ready_world =
     \<lparr>fs = [[''work''] \<mapsto> Dir, [''work'', ''downloads''] \<mapsto> Dir, [''work'', ''data''] \<mapsto> Dir],
      bars = [], console = [], trace = []\<rparr>"

definition example_manifest :: "file_elem list" where
  "example_manifest =
     [\<lparr>name_attr = Some ''a.zip'', url_elem = Some (Some ''http://host/a.zip'')\<rparr>,
      \<lparr>name_attr = Some ''b.zip'', url_elem = Some (Some ''http://host/b.zip'')\<rparr>]"


section \<open>Properties of the path computations\<close>

lemma rfind_notin: "c \<notin> set s \<Longrightarrow> rfind c s = - 1"
  by (induction s) (auto simp: Let_def)

lemma rfind_last: "c \<notin> set e \<Longrightarrow> rfind c (s @ c # e) = int (length s)"
  by (induction s) (auto simp: Let_def rfind_notin)

lemma rfind_cases:
  obtains (absent) "c \<notin> set s" "rfind c s = - 1"
  | (present) a b where "s = a @ c # b" "c \<notin> set b" "rfind c s = int (length a)"
proof (cases "c \<in> set s")
  case True
  then obtain a b where "s = a @ c # b" "c \<notin> set b"
    using split_list_last by fastforce
  then show ?thesis using present rfind_last by blast
next
  case False
  then show ?thesis using absent rfind_notin by blast
qed

lemma basename_cases:
  obtains (plain) "CHR ''/'' \<notin> set p" "basename p = p"
  | (split) a where "p = a @ CHR ''/'' # basename p" "CHR ''/'' \<notin> set (basename p)"
proof (cases rule: rfind_cases[of "CHR ''/''" p])
  case absent
  then show ?thesis using plain by (simp add: basename_def)
next
  case (present a b)
  then have "basename p = b" by (simp add: basename_def nat_add_distrib)
  then show ?thesis using split present by simp
qed

lemma basename_no_sep: "CHR ''/'' \<notin> set (basename p)"
  by (cases p rule: basename_cases) auto

lemma splitext_no_dot:
  "CHR ''/'' \<notin> set b \<Longrightarrow> CHR ''.'' \<notin> set b \<Longrightarrow> splitext b = (b, [])"
  by (simp add: splitext_def rfind_notin)

lemma splitext_last_dot:
  "CHR ''/'' \<notin> set s \<Longrightarrow> CHR ''/'' \<notin> set e \<Longrightarrow> CHR ''.'' \<notin> set e \<Longrightarrow>
   splitext (s @ CHR ''.'' # e) =
     (if list_ex (\<lambda>c. c \<noteq> CHR ''.'') s then (s, CHR ''.'' # e) else (s @ CHR ''.'' # e, []))"
  by (simp add: splitext_def rfind_notin rfind_last)

lemma join_data: "CHR ''/'' \<notin> set z \<Longrightarrow> join ''data'' z = ''data/'' @ z"
  by (cases z) (auto simp: join_def)

text \<open>
  C10. The subfolder is \<^verbatim>\<open>data/\<close> followed by the archive's base name without its
  final extension only: what is cut off the base name is empty or starts at its last
  dot. A base name with no dot is kept whole. When the base name is \<open>s.e\<close> with no dot
  in \<open>e\<close>, the subfolder is named \<open>s\<close>, inner dots included (\<^verbatim>\<open>a.tar.gz\<close> gives
  \<^verbatim>\<open>data/a.tar\<close>), unless \<open>s\<close> consists of dots only, where nothing is cut.
\<close>

theorem extract_to_strips_final_extension:
  "extract_to p ''data'' = ''data/'' @ zip_name p \<and>
   (\<exists>ext. basename p = zip_name p @ ext \<and>
      (ext = [] \<or> hd ext = CHR ''.'' \<and> CHR ''.'' \<notin> set (tl ext))) \<and>
   (CHR ''.'' \<notin> set (basename p) \<longrightarrow> zip_name p = basename p) \<and>
   (basename p = s @ ''.'' @ e \<and> CHR ''.'' \<notin> set e \<longrightarrow>
      zip_name p = (if list_ex (\<lambda>c. c \<noteq> CHR ''.'') s then s else basename p))"
proof -
  let ?b = "basename p"
  have ns: "CHR ''/'' \<notin> set ?b" by (rule basename_no_sep)
  have d: "CHR ''.'' \<notin> set ?b \<longrightarrow> zip_name p = ?b"
    using ns by (simp add: zip_name_def splitext_no_dot)
  have l: "zip_name p = (if list_ex (\<lambda>c. c \<noteq> CHR ''.'') s then s else ?b)"
    if "?b = s @ ''.'' @ e" "CHR ''.'' \<notin> set e" for s e
    using ns that splitext_last_dot[of s e] by (simp add: zip_name_def)
  have x: "\<exists>ext. ?b = zip_name p @ ext \<and>
      (ext = [] \<or> hd ext = CHR ''.'' \<and> CHR ''.'' \<notin> set (tl ext))"
  proof (cases rule: rfind_cases[of "CHR ''.''" ?b])
    case absent
    then show ?thesis using d by simp
  next
    case (present a b)
    then have "zip_name p = a \<or> zip_name p = ?b"
      using l[of a b] by (auto split: if_splits)
    then show ?thesis using present by auto
  qed
  have "CHR ''/'' \<notin> set (zip_name p)"
    using x ns by (metis Un_iff set_append)
  then have "extract_to p ''data'' = ''data/'' @ zip_name p"
    by (simp add: extract_to_def join_data)
  then show ?thesis using d l x by blast
qed

theorem extract_to_strips_final_extension_witness:
  "extract_to ''downloads/a.tar.gz'' ''data'' = ''data/a.tar'' \<and>
   extract_to ''downloads/README'' ''data'' = ''data/README''"
  using extract_to_strips_final_extension[of "''downloads/a.tar.gz''" "''a.tar''" "''gz''"]
    extract_to_strips_final_extension[of "''downloads/README''"]
  by (simp add: basename_def)

lemma collapse_plain:
  "''..'' \<notin> set cs \<Longrightarrow>
   collapse acc cs = Some (acc @ filter (\<lambda>c. c \<noteq> [] \<and> c \<noteq> ''.'') cs)"
  by (induction cs arbitrary: acc) auto

lemma file_path_absolute: "name \<noteq> [] \<and> hd name = CHR ''/'' \<Longrightarrow> file_path name = name"
  by (simp add: file_path_def join_def)

lemma file_path_relative:
  "\<not> (name \<noteq> [] \<and> hd name = CHR ''/'') \<Longrightarrow> file_path name = ''downloads/'' @ name"
  by (auto simp add: file_path_def join_def)

lemma split_sep_file_path:
  assumes "\<not> (name \<noteq> [] \<and> hd name = CHR ''/'')"
  shows "split_sep (file_path name) = ''downloads'' # split_sep name"
  unfolding file_path_relative[OF assms] by simp

lemma hd_file_path:
  assumes "\<not> (name \<noteq> [] \<and> hd name = CHR ''/'')"
  shows "hd (file_path name) \<noteq> CHR ''/''"
  unfolding file_path_relative[OF assms] by simp

lemma below_downloads_plain:
  assumes r: "\<not> (name \<noteq> [] \<and> hd name = CHR ''/'')"
    and d: "''..'' \<notin> set (split_sep name)"
    and c: "list_ex (\<lambda>c. c \<noteq> [] \<and> c \<noteq> ''.'') (split_sep name)"
  shows "below_downloads (file_path name)"
proof -
  have "filter (\<lambda>c. c \<noteq> [] \<and> c \<noteq> ''.'') (split_sep name) \<noteq> []"
    using c by (simp add: list_ex_iff filter_empty_conv)
  then obtain x xs where f: "filter (\<lambda>c. c \<noteq> [] \<and> c \<noteq> ''.'') (split_sep name) = x # xs"
    by (cases "filter (\<lambda>c. c \<noteq> [] \<and> c \<noteq> ''.'') (split_sep name)") auto
  have "collapse [''downloads''] (split_sep name) = Some (''downloads'' # x # xs)"
    using collapse_plain[OF d, of "[''downloads'']"] f by simp
  then have "collapse [] (split_sep (file_path name)) = Some (''downloads'' # x # xs)"
    unfolding split_sep_file_path[OF r] by simp
  then show ?thesis
    unfolding below_downloads_def using hd_file_path[OF r] by simp
qed

lemma dotdot_escapes: "\<not> below_downloads (file_path ''../x'')"
  by (simp add: below_downloads_def file_path_def join_def)

text \<open>
  C9 (as amended). The destination is \<^verbatim>\<open>os.path.join("downloads", name)\<close> with the name
  as the manifest gives it: an absolute name is the destination itself, any other name
  is appended to \<^verbatim>\<open>downloads/\<close> unchanged. A relative name none of whose components is
  \<^verbatim>\<open>..\<close> and one of whose components is a proper name (separators or not) leads
  inside \<^verbatim>\<open>downloads\<close>; the name \<^verbatim>\<open>../x\<close> leads outside.
\<close>

theorem file_path_is_verbatim_join:
  "(name \<noteq> [] \<and> hd name = CHR ''/'' \<longrightarrow> file_path name = name) \<and>
   (\<not> (name \<noteq> [] \<and> hd name = CHR ''/'') \<longrightarrow> file_path name = ''downloads/'' @ name) \<and>
   (\<not> (name \<noteq> [] \<and> hd name = CHR ''/'') \<and> ''..'' \<notin> set (split_sep name) \<and>
      list_ex (\<lambda>c. c \<noteq> [] \<and> c \<noteq> ''.'') (split_sep name) \<longrightarrow>
      below_downloads (file_path name)) \<and>
   \<not> below_downloads (file_path ''../x'')"
  using file_path_absolute[of name] file_path_relative[of name] below_downloads_plain[of name]
    dotdot_escapes by blast

theorem file_path_is_verbatim_join_witness:
  "file_path ''/etc/passwd'' = ''/etc/passwd'' \<and> file_path ''a.zip'' = ''downloads/a.zip'' \<and>
   below_downloads (file_path ''sub/a..b.zip'')"
  using file_path_is_verbatim_join[of "''/etc/passwd''"] file_path_is_verbatim_join[of "''a.zip''"]
    file_path_is_verbatim_join[of "''sub/a..b.zip''"]
  by auto

text \<open>
  C9 as stated fails: the name \<^verbatim>\<open>sub/a.zip\<close> contains a separator and its
  destination \<^verbatim>\<open>downloads/sub/a.zip\<close> is inside \<^verbatim>\<open>downloads\<close>.
\<close>

theorem separator_stays_below_downloads:
  "CHR ''/'' \<in> set ''sub/a.zip'' \<and> below_downloads (file_path ''sub/a.zip'')"
  by (simp add: below_downloads_def file_path_def join_def)

section \<open>Properties of the file system\<close>

lemma fs_le_refl: "fs_le f f" by (simp add: fs_le_def)

lemma fs_le_trans: "fs_le f g \<Longrightarrow> fs_le g h \<Longrightarrow> fs_le f h"
  unfolding fs_le_def by (metis)

lemma kind_of_Folder: "kind_of x = Folder \<longleftrightarrow> x = Some Dir"
  by (cases x rule: kind_of.cases) auto

lemma kind_of_Regular: "kind_of x = Regular \<longleftrightarrow> (\<exists>b. x = Some (File b))"
  by (cases x rule: kind_of.cases) auto

lemma kind_of_Absent: "kind_of x = Absent \<longleftrightarrow> x = None"
  by (cases x rule: kind_of.cases) auto

lemma fs_le_mkdir: "kind_of (f t) \<noteq> Regular \<Longrightarrow> fs_le f (f(t \<mapsto> Dir))"
  unfolding fs_le_def by (metis fun_upd_apply kind.exhaust kind_of.simps(2) kind_of_Folder)

lemma fs_le_put: "f t \<noteq> Some Dir \<Longrightarrow> fs_le f (f(t \<mapsto> File b))"
  unfolding fs_le_def
  by (metis fun_upd_apply kind.exhaust kind_of.simps(3) kind_of_Folder)

lemma fs_le_Dir: "fs_le f g \<Longrightarrow> f t = Some Dir \<Longrightarrow> g t = Some Dir"
  unfolding fs_le_def by (metis kind.distinct(1) kind_of.simps(2) kind_of_Folder)


lemma walk_mono: "fs_le f g \<Longrightarrow> walk f cur cs = Some d \<Longrightarrow> walk g cur cs = Some d"
  by (induction cs arbitrary: cur) (auto split: if_splits dest: fs_le_Dir)

lemma locate_mono: "fs_le f g \<Longrightarrow> locate cur p f = Some t \<Longrightarrow> locate cur p g = Some t"
  by (auto simp: locate_def Let_def split: if_splits option.splits dest: walk_mono)

lemma mknodes_le: "mknodes cur cs f = (r, f') \<Longrightarrow> fs_le f f'"
proof (induction cs arbitrary: cur f)
  case Nil
  then show ?case by (simp add: fs_le_refl)
next
  case (Cons c cs)
  show ?case
  proof (cases "c = [] \<or> c = ''.'' \<or> c = ''..''")
    case True
    then show ?thesis using Cons by (auto split: if_splits)
  next
    case False
    show ?thesis
    proof (cases "kind_of (f (cur @ [c])) = Regular")
      case True
      then show ?thesis using Cons.prems False by (auto simp: kind_of_Regular fs_le_refl)
    next
      case nr: False
      then have "mknodes (cur @ [c]) cs (f(cur @ [c] \<mapsto> Dir)) = (r, f')"
        using Cons.prems False by (auto simp: kind_of_Regular split: option.splits inode.splits)
      then have "fs_le (f(cur @ [c] \<mapsto> Dir)) f'" by (rule Cons.IH)
      then show ?thesis using fs_le_mkdir[of f "cur @ [c]"] nr fs_le_trans by blast
    qed
  qed
qed

lemma mknodes_files: "mknodes cur cs f = (r, f') \<Longrightarrow> f t = Some (File b) \<Longrightarrow> f' t = Some (File b)"
proof (induction cs arbitrary: cur f)
  case Nil
  then show ?case by simp
next
  case (Cons c cs)
  show ?case
  proof (cases "c = [] \<or> c = ''.'' \<or> c = ''..''")
    case True
    then show ?thesis using Cons by (auto split: if_splits)
  next
    case False
    show ?thesis
    proof (cases "kind_of (f (cur @ [c])) = Regular")
      case True
      then show ?thesis using Cons.prems False by (auto simp: kind_of_Regular)
    next
      case nr: False
      then have m: "mknodes (cur @ [c]) cs (f(cur @ [c] \<mapsto> Dir)) = (r, f')"
        using Cons.prems False by (auto simp: kind_of_Regular split: option.splits inode.splits)
      have "cur @ [c] \<noteq> t" using nr Cons.prems(2) by auto
      then have "(f(cur @ [c] \<mapsto> Dir)) t = Some (File b)" using Cons.prems(2) by simp
      then show ?thesis using Cons.IH[OF m] by blast
    qed
  qed
qed

lemma mknodes_error: "mknodes cur cs f = (Inl e, f') \<Longrightarrow> e = OSError"
proof (induction cs arbitrary: cur f)
  case Nil
  then show ?case by simp
next
  case (Cons c cs)
  show ?case
  proof (cases "c = [] \<or> c = ''.'' \<or> c = ''..''")
    case True
    then show ?thesis using Cons by (auto split: if_splits)
  next
    case False
    show ?thesis
    proof (cases "kind_of (f (cur @ [c])) = Regular")
      case True
      then show ?thesis using Cons.prems False by (auto simp: kind_of_Regular)
    next
      case nr: False
      then have "mknodes (cur @ [c]) cs (f(cur @ [c] \<mapsto> Dir)) = (Inl e, f')"
        using Cons.prems False by (auto simp: kind_of_Regular split: option.splits inode.splits)
      then show ?thesis by (rule Cons.IH)
    qed
  qed
qed

lemma mknodes_walk: "mknodes cur cs f = (Inr d, f') \<Longrightarrow> walk f' cur cs = Some d"
proof (induction cs arbitrary: cur f)
  case Nil
  then show ?case by simp
next
  case (Cons c cs)
  show ?case
  proof (cases "c = [] \<or> c = ''.'' \<or> c = ''..''")
    case True
    then show ?thesis using Cons by (auto split: if_splits)
  next
    case False
    have nr: "kind_of (f (cur @ [c])) \<noteq> Regular"
      using Cons.prems False by (auto simp: kind_of_Regular)
    then have m: "mknodes (cur @ [c]) cs (f(cur @ [c] \<mapsto> Dir)) = (Inr d, f')"
      using Cons.prems False by (auto simp: kind_of_Regular split: option.splits inode.splits)
    have "fs_le (f(cur @ [c] \<mapsto> Dir)) f'" using m by (rule mknodes_le)
    then have "f' (cur @ [c]) = Some Dir" by (rule fs_le_Dir) simp
    then show ?thesis using Cons.IH[OF m] False by simp
  qed
qed

lemma iter_content_known:
  "f t = Some (File old) \<Longrightarrow>
   iter_content t cs (b, f) =
     (b\<lparr>bar_n := bar_n b + length (concat cs)\<rparr>, f(t \<mapsto> File (old @ concat cs)))"
proof (induction cs arbitrary: b f old)
  case Nil
  then show ?case by (simp add: fun_upd_idem)
next
  case (Cons c cs)
  show ?case
  proof (cases "c = []")
    case True
    then show ?thesis using Cons by simp
  next
    case False
    have w: "file_write t c f = f(t \<mapsto> File (old @ c))"
      using Cons.prems by (simp add: file_write_def)
    have ih: "iter_content t cs (b', f(t \<mapsto> File (old @ c))) =
        (b'\<lparr>bar_n := bar_n b' + length (concat cs)\<rparr>,
         (f(t \<mapsto> File (old @ c)))(t \<mapsto> File ((old @ c) @ concat cs)))" for b'
      by (rule Cons.IH) simp
    have "iter_content t (c # cs) (b, f) =
        iter_content t cs (b\<lparr>bar_n := bar_n b + length c\<rparr>, f(t \<mapsto> File (old @ c)))"
      using False w by simp
    also have "\<dots> = (b\<lparr>bar_n := bar_n b + length (concat (c # cs))\<rparr>,
         f(t \<mapsto> File (old @ concat (c # cs))))"
      unfolding ih by (simp add: add.assoc)
    finally show ?thesis .
  qed
qed

section \<open>Properties of \<^verbatim>\<open>download_file\<close>\<close>

lemma open_wb_Inr:
  "open_wb cur p f = Inr (t, f1) \<longleftrightarrow>
   locate cur p f = Some t \<and> f t \<noteq> Some Dir \<and> f1 = f(t \<mapsto> File [])"
  by (auto simp: open_wb_def split: option.splits inode.splits)

lemma total_fits_small: "\<bar>n\<bar> < 2 ^ 64 \<Longrightarrow> total_fits n"
proof -
  have "(2::int) ^ 64 \<le> 2 ^ 970" by (rule power_increasing) simp_all
  moreover have "(2::int) ^ 1024 - 2 ^ 970 = (2 ^ 54 - 1) * 2 ^ 970"
    by (simp add: algebra_simps flip: power_add)
  moreover have "(1::int) * 2 ^ 970 \<le> (2 ^ 54 - 1) * 2 ^ 970"
    by (rule mult_right_mono) simp_all
  ultimately show "\<bar>n\<bar> < 2 ^ 64 \<Longrightarrow> total_fits n"
    unfolding total_fits_def by linarith
qed

lemma total_fits_0: "total_fits 0"
  by (rule total_fits_small) simp

lemma download_file_opened:
  assumes "net E u = Some r"
    and "total_size (int_max_str_digits E) r = Inr tsize"
    and "open_wb (start (cwd E) p) p (fs w) = Inr (t, f1)"
  shows "download_file E (Some u) p w =
     (if \<not> total_fits tsize then (Inl OverflowError, w\<lparr>fs := (fs w)(t \<mapsto> File [])\<rparr>)
      else (if broken r then Inl ChunkedEncodingError else Inr (),
            w\<lparr>fs := (fs w)(t \<mapsto> File (concat (chunks r))),
              bars := bars w @ [\<lparr>bar_total = tsize, bar_n = length (concat (chunks r)),
                                 bar_desc = basename p\<rparr>]\<rparr>))"
proof -
  have f1: "f1 = (fs w)(t \<mapsto> File [])" using assms(3) by (simp add: open_wb_Inr)
  then have "f1 t = Some (File [])" by simp
  from iter_content_known[of f1 t "[]", OF this]
  have "iter_content t (chunks r) (\<lparr>bar_total = tsize, bar_n = 0, bar_desc = basename p\<rparr>, f1) =
      (\<lparr>bar_total = tsize, bar_n = length (concat (chunks r)), bar_desc = basename p\<rparr>,
       (fs w)(t \<mapsto> File (concat (chunks r))))"
    by (simp add: f1)
  then show ?thesis using assms f1 by (simp add: download_file_def)
qed

lemma download_file_Inr:
  assumes "download_file E url p w = (Inr (), w')"
  obtains u r tsize t where "url = Some u" "net E u = Some r" "\<not> broken r"
    "total_size (int_max_str_digits E) r = Inr tsize"
    "locate (start (cwd E) p) p (fs w) = Some t" "fs w t \<noteq> Some Dir"
    "w' = w\<lparr>fs := (fs w)(t \<mapsto> File (concat (chunks r))),
        bars := bars w @ [\<lparr>bar_total = tsize, bar_n = length (concat (chunks r)),
                           bar_desc = basename p\<rparr>]\<rparr>"
    "total_fits tsize"
proof -
  from assms obtain u where u: "url = Some u"
    by (cases url) (auto simp: download_file_def)
  from assms u obtain r where r: "net E u = Some r"
    by (cases "net E u") (auto simp: download_file_def)
  from assms u r obtain tsize where ts: "total_size (int_max_str_digits E) r = Inr tsize"
    by (cases "total_size (int_max_str_digits E) r") (auto simp: download_file_def)
  from assms u r ts obtain t f1 where o: "open_wb (start (cwd E) p) p (fs w) = Inr (t, f1)"
    by (cases "open_wb (start (cwd E) p) p (fs w)") (auto simp: download_file_def)
  note d = download_file_opened[OF r ts o]
  have fits: "total_fits tsize" using assms d u by (auto split: if_splits)
  have "\<not> broken r" using assms d u fits by (auto split: if_splits)
  then show ?thesis using that[OF u r _ ts _ _ _ fits] o d assms u fits by (simp add: open_wb_Inr)
qed

lemma download_file_fs_le: "download_file E url p w = (r, w') \<Longrightarrow> fs_le (fs w) (fs w')"
proof (cases url)
  case None
  assume "download_file E url p w = (r, w')"
  then show ?thesis using None by (auto simp: download_file_def fs_le_refl)
next
  case (Some u)
  assume a: "download_file E url p w = (r, w')"
  show ?thesis
  proof (cases "net E u")
    case None
    then show ?thesis using a Some by (auto simp: download_file_def fs_le_refl)
  next
    case (Some resp)
    note resp = this
    show ?thesis
    proof (cases "total_size (int_max_str_digits E) resp")
      case (Inl e)
      then show ?thesis using a resp \<open>url = Some u\<close> by (auto simp: download_file_def fs_le_refl)
    next
      case (Inr tsize)
      show ?thesis
      proof (cases "open_wb (start (cwd E) p) p (fs w)")
        case (Inl e)
        then show ?thesis using a resp Inr \<open>url = Some u\<close>
          by (auto simp: download_file_def fs_le_refl)
      next
        case (Inr tf)
        obtain t f1 where tf: "tf = (t, f1)" by (cases tf)
        have "fs w t \<noteq> Some Dir" using Inr tf by (simp add: open_wb_Inr)
        then have "fs_le (fs w) ((fs w)(t \<mapsto> File (concat (chunks resp))))"
          "fs_le (fs w) ((fs w)(t \<mapsto> File []))" by (simp_all add: fs_le_put)
        then show ?thesis
          using a download_file_opened[OF resp \<open>total_size _ resp = Inr tsize\<close> Inr[unfolded tf], of ]
            \<open>url = Some u\<close> by (auto split: if_splits)
      qed
    qed
  qed
qed

lemma download_file_shown:
  assumes "download_file E url p w = (r, w')"
  shows "console w' = console w \<and>
    (bars w' = bars w \<and> r \<noteq> Inr () \<or> (\<exists>b. bars w' = bars w @ [b] \<and> bar_desc b = basename p))"
proof (cases url)
  case None
  then show ?thesis using assms by (auto simp: download_file_def)
next
  case (Some u)
  note u = this
  show ?thesis
  proof (cases "net E u")
    case None
    then show ?thesis using assms u by (auto simp: download_file_def)
  next
    case (Some resp)
    note resp = this
    show ?thesis
    proof (cases "total_size (int_max_str_digits E) resp")
      case (Inl e)
      then show ?thesis using assms resp u by (auto simp: download_file_def)
    next
      case (Inr tsize)
      note ts = this
      show ?thesis
      proof (cases "open_wb (start (cwd E) p) p (fs w)")
        case (Inl e)
        then show ?thesis using assms resp ts u by (auto simp: download_file_def)
      next
        case (Inr tf)
        obtain t f1 where tf: "tf = (t, f1)" by (cases tf)
        show ?thesis
          using assms download_file_opened[OF resp ts Inr[unfolded tf]] u
          by (auto split: if_splits)
      qed
    qed
  qed
qed

text \<open>
  C4. A response without a \<^verbatim>\<open>content-length\<close> header, whose body arrives whole, to a
  destination that can be opened: the progress bar's total is 0, \<^verbatim>\<open>download_file\<close>
  returns, and the file holds exactly the concatenation of the chunks.
\<close>

theorem download_without_content_length:
  assumes "net E u = Some r" and "content_length r = None" and "\<not> broken r"
    and "open_wb (start (cwd E) p) p (fs w) = Inr (t, f1)"
  shows "download_file E (Some u) p w =
     (Inr (),
      w\<lparr>fs := (fs w)(t \<mapsto> File (concat (chunks r))),
        bars := bars w @ [\<lparr>bar_total = 0, bar_n = length (concat (chunks r)),
                           bar_desc = basename p\<rparr>]\<rparr>)"
  using download_file_opened[OF assms(1) _ assms(4), of 0] assms(2,3)
  by (simp add: total_size_def total_fits_0)

theorem download_without_content_length_witness:
  "download_file example_env (Some ''http://host/a.zip'') ''downloads/a.zip'' ready_world =
     (Inr (),
      ready_world\<lparr>fs := (fs ready_world)([''work'', ''downloads'', ''a.zip''] \<mapsto> File empty_zip),
        bars := [\<lparr>bar_total = 0, bar_n = 22, bar_desc = ''a.zip''\<rparr>]\<rparr>)"
proof -
  have n: "net example_env ''http://host/a.zip'' =
      Some \<lparr>status_code = 200, content_length = None,
            chunks = [take 10 empty_zip, [], drop 10 empty_zip], broken = False\<rparr>"
    by (simp add: example_env_def example_net_def)
  have o: "open_wb (start (cwd example_env) ''downloads/a.zip'') ''downloads/a.zip'' (fs ready_world) =
      Inr ([''work'', ''downloads'', ''a.zip''],
           (fs ready_world)([''work'', ''downloads'', ''a.zip''] \<mapsto> File []))"
    by (simp add: open_wb_def locate_def start_def example_env_def ready_world_def)
  show ?thesis using download_without_content_length[OF n _ _ o]
    by (simp add: basename_def empty_zip_def ready_world_def)
qed

lemma total_size_header:
  "total_size lim (r\<lparr>content_length := h\<rparr>) = (case h of None \<Rightarrow> Inr 0 | Some v \<Rightarrow> py_int lim v)"
  by (simp add: total_size_def)

lemma header_ok_total_size:
  "header_ok lim h \<Longrightarrow> \<exists>n. total_size lim (r\<lparr>content_length := h\<rparr>) = Inr n \<and> total_fits n"
  by (auto simp: header_ok_def total_size_def total_fits_0 total_fits_small
      split: option.splits sum.splits)

lemma header_rejected_total_size:
  "header_rejected lim h \<Longrightarrow> total_size lim (r\<lparr>content_length := h\<rparr>) = Inl ValueError"
  by (auto simp: header_rejected_def total_size_def py_int_def Let_def
      split: option.splits sum.splits if_splits)

lemma header_overflows_total_size:
  "header_overflows lim h \<Longrightarrow>
   \<exists>n. total_size lim (r\<lparr>content_length := h\<rparr>) = Inr n \<and> \<not> total_fits n"
  by (auto simp: header_overflows_def total_size_def split: option.splits sum.splits)

lemma with_header_simps:
  "net (with_header h E) u = map_option (\<lambda>r. r\<lparr>content_length := h\<rparr>) (net E u)"
  "cwd (with_header h E) = cwd E"
  "int_max_str_digits (with_header h E) = int_max_str_digits E"
  by (simp_all add: with_header_def)

lemma download_file_header:
  assumes "header_ok (int_max_str_digits E) h"
  shows "\<exists>b. download_file (with_header h E) url p w =
     (fst (download_file (with_header None E) url p w),
      (snd (download_file (with_header None E) url p w))\<lparr>bars := b\<rparr>)"
proof (cases url)
  case None
  then show ?thesis by (auto simp: download_file_def intro: exI[of _ "bars w"])
next
  case (Some u)
  note u = this
  show ?thesis
  proof (cases "net E u")
    case None
    then show ?thesis using u
      by (auto simp: download_file_def with_header_simps intro: exI[of _ "bars w"])
  next
    case (Some r)
    note r = this
    obtain n where n: "total_size (int_max_str_digits E) (r\<lparr>content_length := h\<rparr>) = Inr n"
      and fits: "total_fits n"
      using header_ok_total_size[OF assms] by blast
    have z: "total_size (int_max_str_digits E) (r\<lparr>content_length := None\<rparr>) = Inr 0"
      by (simp add: total_size_def)
    show ?thesis
    proof (cases "open_wb (start (cwd E) p) p (fs w)")
      case (Inl e)
      then show ?thesis using u r n z
        by (auto simp: download_file_def with_header_simps intro: exI[of _ "bars w"])
    next
      case (Inr tf)
      obtain t f1 where tf: "tf = (t, f1)" by (cases tf)
      have a: "download_file (with_header h E) (Some u) p w =
         (if broken r then Inl ChunkedEncodingError else Inr (),
          w\<lparr>fs := (fs w)(t \<mapsto> File (concat (chunks r))),
            bars := bars w @ [\<lparr>bar_total = n, bar_n = length (concat (chunks r)),
                               bar_desc = basename p\<rparr>]\<rparr>)"
        using download_file_opened[of "with_header h E" u "r\<lparr>content_length := h\<rparr>" n p w t f1]
          r n fits Inr tf by (simp add: with_header_simps)
      have b: "download_file (with_header None E) (Some u) p w =
         (if broken r then Inl ChunkedEncodingError else Inr (),
          w\<lparr>fs := (fs w)(t \<mapsto> File (concat (chunks r))),
            bars := bars w @ [\<lparr>bar_total = 0, bar_n = length (concat (chunks r)),
                               bar_desc = basename p\<rparr>]\<rparr>)"
        using download_file_opened[of "with_header None E" u "r\<lparr>content_length := None\<rparr>" 0 p w t f1]
          r z Inr tf by (simp add: with_header_simps total_fits_0)
      show ?thesis unfolding u a b by (auto intro: exI)
    qed
  qed
qed

lemma download_file_rejected_header:
  assumes "header_rejected (int_max_str_digits E) h" and "net E u = Some r"
  shows "download_file (with_header h E) (Some u) p w = (Inl ValueError, w)"
  using assms header_rejected_total_size[OF assms(1), of r]
  by (simp add: download_file_def with_header_simps)

lemma download_file_overflowing_header:
  assumes "header_overflows (int_max_str_digits E) h" and "net E u = Some r"
    and "open_wb (start (cwd E) p) p (fs w) = Inr (t, f1)"
  shows "download_file (with_header h E) (Some u) p w =
     (Inl OverflowError, w\<lparr>fs := (fs w)(t \<mapsto> File [])\<rparr>)"
proof -
  obtain n where n: "total_size (int_max_str_digits E) (r\<lparr>content_length := h\<rparr>) = Inr n"
    and nf: "\<not> total_fits n"
    using header_overflows_total_size[OF assms(1)] by blast
  show ?thesis
    using download_file_opened[of "with_header h E" u "r\<lparr>content_length := h\<rparr>" n p w t f1]
      assms(2,3) n nf by (simp add: with_header_simps)
qed

text \<open>
  C7 (as amended). For two values of the \<^verbatim>\<open>content-length\<close> header that \<^verbatim>\<open>int\<close>
  accepts, below \<^verbatim>\<open>2**64\<close> in absolute value (or no header), \<^verbatim>\<open>download_file\<close> ends
  the same way and leaves the same file system, so the same destination file. A value
  \<^verbatim>\<open>int\<close> rejects makes it raise \<^verbatim>\<open>ValueError\<close> before the destination is opened:
  nothing is written. A value \<^verbatim>\<open>int\<close> accepts but no \<^verbatim>\<open>float\<close> can hold makes the
  progress bar raise \<^verbatim>\<open>OverflowError\<close> after the destination is opened: the file is
  left empty.
\<close>

theorem download_independent_of_accepted_header:
  "(header_ok (int_max_str_digits E) h \<and> header_ok (int_max_str_digits E) h' \<longrightarrow>
      fst (download_file (with_header h E) url p w) =
        fst (download_file (with_header h' E) url p w) \<and>
      fs (snd (download_file (with_header h E) url p w)) =
        fs (snd (download_file (with_header h' E) url p w))) \<and>
   (header_rejected (int_max_str_digits E) h \<and> net E u = Some r \<longrightarrow>
      download_file (with_header h E) (Some u) p w = (Inl ValueError, w)) \<and>
   (header_overflows (int_max_str_digits E) h \<and> net E u = Some r \<and>
      open_wb (start (cwd E) p) p (fs w) = Inr (t, f1) \<longrightarrow>
      download_file (with_header h E) (Some u) p w =
        (Inl OverflowError, w\<lparr>fs := (fs w)(t \<mapsto> File [])\<rparr>))"
proof -
  have "fst (download_file (with_header h E) url p w) =
        fst (download_file (with_header h' E) url p w) \<and>
      fs (snd (download_file (with_header h E) url p w)) =
        fs (snd (download_file (with_header h' E) url p w))"
    if a: "header_ok (int_max_str_digits E) h" and b: "header_ok (int_max_str_digits E) h'"
    using download_file_header[OF a, of url p w] download_file_header[OF b, of url p w]
    by auto
  then show ?thesis
    using download_file_rejected_header[of E h u r p w]
      download_file_overflowing_header[of E h u r p w t f1] by blast
qed

lemma py_int_nines:
  "py_int 4300 (replicate 309 CHR ''9'') = Inr (10 ^ 309 - 1)"
  by code_simp

theorem download_independent_of_accepted_header_witness:
  "fs (snd (download_file (with_header (Some '' +2_2 '') example_env) (Some ''http://host/a.zip'')
        ''downloads/a.zip'' ready_world)) =
   fs (snd (download_file (with_header None example_env) (Some ''http://host/a.zip'')
        ''downloads/a.zip'' ready_world)) \<and>
   download_file (with_header (Some ''22, 22'') example_env) (Some ''http://host/b.zip'')
        ''downloads/b.zip'' ready_world = (Inl ValueError, ready_world) \<and>
   download_file (with_header (Some (replicate 309 CHR ''9'')) example_env)
        (Some ''http://host/b.zip'') ''downloads/b.zip'' ready_world =
     (Inl OverflowError,
      ready_world\<lparr>fs := (fs ready_world)([''work'', ''downloads'', ''b.zip''] \<mapsto> File [])\<rparr>)"
proof -
  let ?t = "[''work'', ''downloads'', ''b.zip'']"
  have a: "header_ok (int_max_str_digits example_env) (Some '' +2_2 '')"
    by (simp add: header_ok_def py_int_def strip_def isspace_def isdigit_def digits_value_def
        example_env_def total_fits_small)
  have b: "header_ok (int_max_str_digits example_env) None"
    by (simp add: header_ok_def)
  have c: "header_rejected (int_max_str_digits example_env) (Some ''22, 22'')"
    by (simp add: header_rejected_def py_int_def strip_def isspace_def isdigit_def example_env_def)
  have d: "header_overflows (int_max_str_digits example_env) (Some (replicate 309 CHR ''9''))"
    by (simp add: header_overflows_def example_env_def py_int_nines total_fits_def)
  have n: "net example_env ''http://host/b.zip'' = Some \<lparr>status_code = 404, content_length = Some ''22'',
              chunks = [empty_zip], broken = False\<rparr>"
    by (simp add: example_env_def example_net_def)
  have o: "open_wb (start (cwd example_env) ''downloads/b.zip'') ''downloads/b.zip'' (fs ready_world) =
      Inr (?t, (fs ready_world)(?t \<mapsto> File []))"
    by (simp add: open_wb_def locate_def start_def example_env_def ready_world_def)
  show ?thesis
    using download_independent_of_accepted_header[of example_env "Some '' +2_2 ''" None
        "Some ''http://host/a.zip''" "''downloads/a.zip''" ready_world]
      download_independent_of_accepted_header[of example_env "Some ''22, 22''" _ _ _ _
        "''http://host/b.zip''" _]
      download_independent_of_accepted_header[of example_env "Some (replicate 309 CHR ''9'')" _ _
        "''downloads/b.zip''" ready_world "''http://host/b.zip''" _ ?t
        "(fs ready_world)(?t \<mapsto> File [])"]
      a b c d n o by blast
qed

text \<open>
  C7 as stated fails: the same body with the header \<^verbatim>\<open>22\<close> is written to the
  destination, and with the header \<^verbatim>\<open>22, 22\<close> (what two such header lines are merged
  into) the destination is not even created.
\<close>

theorem rejected_header_leaves_no_file:
  "fs (snd (download_file (with_header (Some ''22'') example_env) (Some ''http://host/b.zip'')
        ''downloads/b.zip'' ready_world)) [''work'', ''downloads'', ''b.zip''] = Some (File empty_zip) \<and>
   fs (snd (download_file (with_header (Some ''22, 22'') example_env) (Some ''http://host/b.zip'')
        ''downloads/b.zip'' ready_world)) [''work'', ''downloads'', ''b.zip''] = None"
proof -
  have "total_fits 22" by (rule total_fits_small) simp
  then show ?thesis
    by (simp add: download_file_def with_header_def example_env_def example_net_def
        ready_world_def total_size_def py_int_def strip_def isspace_def isdigit_def
        digits_value_def open_wb_def locate_def start_def file_write_def)
qed

section \<open>Properties of \<^verbatim>\<open>extract_zip\<close>\<close>

lemma makedirs_Inr:
  "makedirs E p w = (Inr base, w') \<longleftrightarrow>
   p \<noteq> [] \<and> (\<exists>f1. mknodes (start (cwd E) p) (split_sep p) (fs w) = (Inr base, f1) \<and> w' = w\<lparr>fs := f1\<rparr>)"
  by (auto simp: makedirs_def split: prod.splits)

lemma makedirs_fs_le: "makedirs E p w = (r, w') \<Longrightarrow> fs_le (fs w) (fs w')"
  by (auto simp: makedirs_def fs_le_refl split: if_splits prod.splits dest: mknodes_le)

lemma makedirs_rest:
  "makedirs E p w = (r, w') \<Longrightarrow> bars w' = bars w \<and> console w' = console w \<and> trace w' = trace w"
  by (auto simp: makedirs_def split: if_splits prod.splits)

lemma extract_member_le: "extract_member base m f = (r, f') \<Longrightarrow> fs_le f f'"
proof -
  assume a: "extract_member base m f = (r, f')"
  let ?cs = "arcname (fst m)"
  show ?thesis
  proof (cases "is_dir (fst m)")
    case True
    then show ?thesis using a
      by (auto simp: extract_member_def Let_def split: prod.splits sum.splits dest: mknodes_le)
  next
    case False
    show ?thesis
    proof (cases "?cs = []")
      case True
      then show ?thesis using a False by (simp add: extract_member_def Let_def fs_le_refl)
    next
      case ne: False
      obtain r1 f1 where m: "mknodes base (butlast ?cs) f = (r1, f1)" by fastforce
      have l1: "fs_le f f1" using m by (rule mknodes_le)
      show ?thesis
      proof (cases r1)
        case (Inl e)
        then show ?thesis using a False ne m l1 by (simp add: extract_member_def Let_def)
      next
        case (Inr d)
        show ?thesis
        proof (cases "f1 (d @ [last ?cs]) = Some Dir")
          case True
          then show ?thesis using a False ne m l1 Inr by (simp add: extract_member_def Let_def)
        next
          case nd: False
          then have "f' = f1(d @ [last ?cs] \<mapsto> File (snd m))"
            using a False ne m Inr
            by (auto simp: extract_member_def Let_def split: option.splits inode.splits)
          then show ?thesis using l1 nd fs_le_put[of f1 "d @ [last ?cs]"] fs_le_trans by blast
        qed
      qed
    qed
  qed
qed

lemma extractall_le: "extractall base ms f = (r, f') \<Longrightarrow> fs_le f f'"
proof (induction ms arbitrary: f)
  case Nil
  then show ?case by (simp add: fs_le_refl)
next
  case (Cons m ms)
  obtain r1 f1 where e: "extract_member base m f = (r1, f1)" by fastforce
  have l: "fs_le f f1" using e by (rule extract_member_le)
  show ?case
  proof (cases r1)
    case (Inl x)
    then show ?thesis using Cons.prems e l by simp
  next
    case (Inr u)
    then have "extractall base ms f1 = (r, f')" using Cons.prems e by simp
    then show ?thesis using Cons.IH l fs_le_trans by blast
  qed
qed

lemma extract_zip_Inr:
  assumes "extract_zip E zp d w = (Inr (), w')"
  obtains base f1 content ms f2 where
    "extract_to zp d \<noteq> []"
    "mknodes (start (cwd E) (extract_to zp d)) (split_sep (extract_to zp d)) (fs w) = (Inr base, f1)"
    "read_file (start (cwd E) zp) zp f1 = Inr content"
    "unzip E content = Some ms"
    "extractall base ms f1 = (Inr (), f2)"
    "w' = w\<lparr>fs := f2, console := console w @ [''Extracted: '' @ zp @ '' to '' @ extract_to zp d]\<rparr>"
proof -
  obtain r1 w1 where m: "makedirs E (extract_to zp d) w = (r1, w1)" by fastforce
  then obtain base where b: "r1 = Inr base" using assms
    by (cases r1) (auto simp: extract_zip_def)
  obtain f1 where f1: "extract_to zp d \<noteq> []"
    "mknodes (start (cwd E) (extract_to zp d)) (split_sep (extract_to zp d)) (fs w) = (Inr base, f1)"
    "w1 = w\<lparr>fs := f1\<rparr>"
    using m b by (auto simp: makedirs_Inr)
  obtain content where c: "read_file (start (cwd E) zp) zp f1 = Inr content"
    using assms m b f1 by (cases "read_file (start (cwd E) zp) zp f1") (auto simp: extract_zip_def)
  obtain ms where ms: "unzip E content = Some ms"
    using assms m b f1 c by (cases "unzip E content") (auto simp: extract_zip_def)
  obtain r2 f2 where x: "extractall base ms f1 = (r2, f2)" by fastforce
  have r2: "r2 = Inr ()" using assms m b f1 c ms x by (cases r2) (auto simp: extract_zip_def)
  have "w' = w\<lparr>fs := f2, console := console w @ [''Extracted: '' @ zp @ '' to '' @ extract_to zp d]\<rparr>"
    using assms m b f1 c ms x r2 by (auto simp: extract_zip_def)
  then show ?thesis using that f1 c ms x r2 by blast
qed

lemma extract_zip_intro:
  assumes "extract_to zp d \<noteq> []"
    "mknodes (start (cwd E) (extract_to zp d)) (split_sep (extract_to zp d)) (fs w) = (Inr base, f1)"
    "read_file (start (cwd E) zp) zp f1 = Inr content"
    "unzip E content = Some ms"
    "extractall base ms f1 = (Inr (), f2)"
  shows "extract_zip E zp d w =
    (Inr (), w\<lparr>fs := f2, console := console w @ [''Extracted: '' @ zp @ '' to '' @ extract_to zp d]\<rparr>)"
  using assms by (simp add: extract_zip_def makedirs_def)

lemma extract_zip_fs_le: "extract_zip E zp d w = (r, w') \<Longrightarrow> fs_le (fs w) (fs w')"
proof -
  assume a: "extract_zip E zp d w = (r, w')"
  obtain r1 w1 where m: "makedirs E (extract_to zp d) w = (r1, w1)" by fastforce
  have l1: "fs_le (fs w) (fs w1)" using m by (rule makedirs_fs_le)
  show ?thesis
  proof (cases r1)
    case (Inl e)
    then show ?thesis using a m l1 by (simp add: extract_zip_def)
  next
    case (Inr base)
    show ?thesis
    proof (cases "read_file (start (cwd E) zp) zp (fs w1)")
      case (Inl e)
      then show ?thesis using a m l1 Inr by (simp add: extract_zip_def)
    next
      case c: (Inr content)
      show ?thesis
      proof (cases "unzip E content")
        case None
        then show ?thesis using a m l1 Inr c by (simp add: extract_zip_def)
      next
        case (Some ms)
        obtain r2 f2 where x: "extractall base ms (fs w1) = (r2, f2)" by fastforce
        have "fs_le (fs w1) f2" using x by (rule extractall_le)
        moreover have "fs w' = f2" using a m Inr c Some x
          by (cases r2) (auto simp: extract_zip_def)
        ultimately show ?thesis using l1 fs_le_trans by blast
      qed
    qed
  qed
qed

lemma extract_zip_shown:
  assumes "extract_zip E zp d w = (r, w')"
  shows "bars w' = bars w \<and>
    console w' = console w @
      (if r = Inr () then [''Extracted: '' @ zp @ '' to '' @ extract_to zp d] else [])"
  using assms
  by (auto simp: extract_zip_def makedirs_def split: option.splits sum.splits prod.splits if_splits)

section \<open>Properties of the loop\<close>

lemma read_file_Inr:
  "read_file cur p f = Inr b \<longleftrightarrow> (\<exists>t. locate cur p f = Some t \<and> f t = Some (File b))"
  by (auto simp: read_file_def split: option.splits inode.splits)

lemma extract_to_nonempty: "extract_to zp ''data'' \<noteq> []"
  by (simp add: extract_to_def join_def)

lemma process_file_Inr:
  assumes "process_file E file w = (Inr (), w')"
  obtains u nm r tsize t base f1 ms f2 where
    "url_elem file = Some (Some u)" "name_attr file = Some nm"
    "net E u = Some r" "\<not> broken r" "total_size (int_max_str_digits E) r = Inr tsize"
    "total_fits tsize"
    "locate (start (cwd E) (file_path nm)) (file_path nm) (fs w) = Some t"
    "fs w t \<noteq> Some Dir"
    "mknodes (start (cwd E) (extract_to (file_path nm) ''data''))
       (split_sep (extract_to (file_path nm) ''data''))
       ((fs w)(t \<mapsto> File (concat (chunks r)))) = (Inr base, f1)"
    "unzip E (concat (chunks r)) = Some ms"
    "extractall base ms f1 = (Inr (), f2)"
    "w' = w\<lparr>fs := f2,
        bars := bars w @ [\<lparr>bar_total = tsize, bar_n = length (concat (chunks r)),
                           bar_desc = basename (file_path nm)\<rparr>],
        console := console w @ [''Extracted: '' @ file_path nm @ '' to '' @
                       extract_to (file_path nm) ''data''],
        trace := trace w @ calls_of file\<rparr>"
proof -
  obtain url where url: "url_elem file = Some url"
    using assms by (cases "url_elem file") (auto simp: process_file_def)
  obtain nm where nm: "name_attr file = Some nm"
    using assms url by (cases "name_attr file") (auto simp: process_file_def)
  let ?p = "file_path nm"
  let ?w0 = "w\<lparr>trace := trace w @ [Begin (Download url ?p)]\<rparr>"
  obtain r1 w1 where d: "download_file E url ?p ?w0 = (r1, w1)" by fastforce
  have r1: "r1 = Inr ()" using assms url nm d by (cases r1) (auto simp: process_file_def)
  let ?w1 = "w1\<lparr>trace := trace w1 @ [End (Download url ?p), Begin (Extract ?p ''data'')]\<rparr>"
  obtain r2 w2 where x: "extract_zip E ?p ''data'' ?w1 = (r2, w2)" by fastforce
  have r2: "r2 = Inr ()" using assms url nm d r1 x by (cases r2) (auto simp: process_file_def)
  have w': "w' = w2\<lparr>trace := trace w2 @ [End (Extract ?p ''data'')]\<rparr>"
    using assms url nm d r1 x r2 by (simp add: process_file_def)
  from d[unfolded r1] obtain u r tsize t where dl:
    "url = Some u" "net E u = Some r" "\<not> broken r"
    "total_size (int_max_str_digits E) r = Inr tsize"
    "locate (start (cwd E) ?p) ?p (fs ?w0) = Some t" "fs ?w0 t \<noteq> Some Dir"
    "w1 = ?w0\<lparr>fs := (fs ?w0)(t \<mapsto> File (concat (chunks r))),
        bars := bars ?w0 @ [\<lparr>bar_total = tsize, bar_n = length (concat (chunks r)),
                           bar_desc = basename ?p\<rparr>]\<rparr>"
    "total_fits tsize"
    by (rule download_file_Inr)
  let ?f = "(fs w)(t \<mapsto> File (concat (chunks r)))"
  have fw1: "fs ?w1 = ?f" using dl(7) by simp
  from x[unfolded r2] obtain base f1 content ms f2 where ex:
    "mknodes (start (cwd E) (extract_to ?p ''data'')) (split_sep (extract_to ?p ''data'')) (fs ?w1)
       = (Inr base, f1)"
    "read_file (start (cwd E) ?p) ?p f1 = Inr content"
    "unzip E content = Some ms"
    "extractall base ms f1 = (Inr (), f2)"
    "w2 = ?w1\<lparr>fs := f2, console := console ?w1 @
        [''Extracted: '' @ ?p @ '' to '' @ extract_to ?p ''data'']\<rparr>"
    by (rule extract_zip_Inr)
  have l0: "fs_le (fs w) ?f" using dl(6) by (simp add: fs_le_put)
  have l1: "fs_le ?f f1" using ex(1)[unfolded fw1] by (rule mknodes_le)
  have "locate (start (cwd E) ?p) ?p f1 = Some t"
    using locate_mono[OF fs_le_trans[OF l0 l1]] dl(5) by simp
  moreover have "f1 t = Some (File (concat (chunks r)))"
    using mknodes_files[OF ex(1)[unfolded fw1], of t] by simp
  ultimately have c: "content = concat (chunks r)"
    using ex(2) by (simp add: read_file_Inr)
  have "w' = w\<lparr>fs := f2,
        bars := bars w @ [\<lparr>bar_total = tsize, bar_n = length (concat (chunks r)),
                           bar_desc = basename ?p\<rparr>],
        console := console w @ [''Extracted: '' @ ?p @ '' to '' @ extract_to ?p ''data''],
        trace := trace w @ calls_of file\<rparr>"
    using w' ex(5) dl(7) dl(1) url nm by (simp add: calls_of_def)
  then show ?thesis
    using that[OF _ nm dl(2,3,4,8) _ _ ex(1)[unfolded fw1] ex(3)[unfolded c] ex(4)]
      url dl(1) dl(5) dl(6) by simp
qed

lemma process_file_intro:
  assumes "url_elem file = Some (Some u)" "name_attr file = Some nm"
    "net E u = Some r" "\<not> broken r" "total_size (int_max_str_digits E) r = Inr tsize"
    "locate (start (cwd E) (file_path nm)) (file_path nm) (fs w) = Some t"
    "fs w t \<noteq> Some Dir"
    "mknodes (start (cwd E) (extract_to (file_path nm) ''data''))
       (split_sep (extract_to (file_path nm) ''data''))
       ((fs w)(t \<mapsto> File (concat (chunks r)))) = (Inr base, f1)"
    "unzip E (concat (chunks r)) = Some ms"
    "extractall base ms f1 = (Inr (), f2)"
    "total_fits tsize"
  shows "process_file E file w = (Inr (), w\<lparr>fs := f2,
        bars := bars w @ [\<lparr>bar_total = tsize, bar_n = length (concat (chunks r)),
                           bar_desc = basename (file_path nm)\<rparr>],
        console := console w @ [''Extracted: '' @ file_path nm @ '' to '' @
                       extract_to (file_path nm) ''data''],
        trace := trace w @ calls_of file\<rparr>)"
proof -
  let ?p = "file_path nm"
  let ?w0 = "w\<lparr>trace := trace w @ [Begin (Download (Some u) ?p)]\<rparr>"
  let ?f = "(fs w)(t \<mapsto> File (concat (chunks r)))"
  have o: "open_wb (start (cwd E) ?p) ?p (fs ?w0) = Inr (t, (fs w)(t \<mapsto> File []))"
    using assms(6,7) by (simp add: open_wb_Inr)
  have d: "download_file E (Some u) ?p ?w0 =
     (Inr (), ?w0\<lparr>fs := ?f,
        bars := bars w @ [\<lparr>bar_total = tsize, bar_n = length (concat (chunks r)),
                           bar_desc = basename ?p\<rparr>]\<rparr>)"
    using download_file_opened[OF assms(3,5) o] assms(4,11) by simp
  let ?w1 = "?w0\<lparr>fs := ?f,
        bars := bars w @ [\<lparr>bar_total = tsize, bar_n = length (concat (chunks r)),
                           bar_desc = basename ?p\<rparr>],
        trace := trace ?w0 @ [End (Download (Some u) ?p), Begin (Extract ?p ''data'')]\<rparr>"
  have l0: "fs_le (fs w) ?f" using assms(7) by (simp add: fs_le_put)
  have l1: "fs_le ?f f1" using assms(8) by (rule mknodes_le)
  have "locate (start (cwd E) ?p) ?p f1 = Some t"
    using locate_mono[OF fs_le_trans[OF l0 l1]] assms(6) by simp
  moreover have "f1 t = Some (File (concat (chunks r)))"
    using mknodes_files[OF assms(8), of t] by simp
  ultimately have rd: "read_file (start (cwd E) ?p) ?p f1 = Inr (concat (chunks r))"
    by (simp add: read_file_Inr)
  have x: "extract_zip E ?p ''data'' ?w1 =
    (Inr (), ?w1\<lparr>fs := f2, console := console ?w1 @
        [''Extracted: '' @ ?p @ '' to '' @ extract_to ?p ''data'']\<rparr>)"
    by (rule extract_zip_intro[OF extract_to_nonempty _ rd assms(9,10)]) (simp add: assms(8))
  show ?thesis
    using assms(1,2) d x by (simp add: process_file_def calls_of_def)
qed

lemma download_file_trace: "download_file E url p w = (r, w') \<Longrightarrow> trace w' = trace w \<and> console w' = console w"
  by (auto simp: download_file_def split: option.splits sum.splits prod.splits if_splits)

lemma extract_zip_trace: "extract_zip E zp d w = (r, w') \<Longrightarrow> trace w' = trace w \<and> bars w' = bars w"
  by (auto simp: extract_zip_def makedirs_def split: option.splits sum.splits prod.splits if_splits)

lemma process_file_cases:
  assumes "process_file E file w = (r, w')"
  obtains (no_url) "url_elem file = None" "r = Inl AttributeError" "w' = w"
  | (no_name) url where "url_elem file = Some url" "name_attr file = None" "r = Inl TypeError" "w' = w"
  | (dl_fails) url nm e where "url_elem file = Some url" "name_attr file = Some nm" "r = Inl e"
      "download_file E url (file_path nm)
         (w\<lparr>trace := trace w @ [Begin (Download url (file_path nm))]\<rparr>) = (Inl e, w')"
  | (ex_fails) url nm e w1 where "url_elem file = Some url" "name_attr file = Some nm" "r = Inl e"
      "download_file E url (file_path nm)
         (w\<lparr>trace := trace w @ [Begin (Download url (file_path nm))]\<rparr>) = (Inr (), w1)"
      "extract_zip E (file_path nm) ''data''
         (w1\<lparr>trace := trace w1 @ [End (Download url (file_path nm)),
                                    Begin (Extract (file_path nm) ''data'')]\<rparr>) = (Inl e, w')"
  | (finished) "r = Inr ()"
proof (cases "url_elem file")
  case None
  then show ?thesis using assms no_url by (simp add: process_file_def)
next
  case (Some url)
  note url = this
  show ?thesis
  proof (cases "name_attr file")
    case None
    then show ?thesis using assms url no_name by (simp add: process_file_def)
  next
    case (Some nm)
    note nm = this
    obtain r1 w1 where d: "download_file E url (file_path nm)
         (w\<lparr>trace := trace w @ [Begin (Download url (file_path nm))]\<rparr>) = (r1, w1)" by fastforce
    show ?thesis
    proof (cases r1)
      case (Inl e)
      then show ?thesis using assms url nm d dl_fails[of url nm e] by (simp add: process_file_def)
    next
      case (Inr u1)
      obtain r2 w2 where x: "extract_zip E (file_path nm) ''data''
         (w1\<lparr>trace := trace w1 @ [End (Download url (file_path nm)),
                                    Begin (Extract (file_path nm) ''data'')]\<rparr>) = (r2, w2)" by fastforce
      show ?thesis
      proof (cases r2)
        case (Inl e)
        then show ?thesis using assms url nm d Inr x ex_fails[of url nm e w1]
          by (simp add: process_file_def)
      next
        case (Inr u2)
        then show ?thesis using assms url nm d \<open>r1 = Inr u1\<close> x finished
          by (simp add: process_file_def)
      qed
    qed
  qed
qed

lemma process_file_fs_le:
  assumes "process_file E file w = (r, w')"
  shows "fs_le (fs w) (fs w')"
  using assms
proof (cases rule: process_file_cases)
  case no_url
  then show ?thesis by (simp add: fs_le_refl)
next
  case (no_name url)
  then show ?thesis by (simp add: fs_le_refl)
next
  case (dl_fails url nm e)
  then show ?thesis using download_file_fs_le by fastforce
next
  case (ex_fails url nm e w1)
  have "fs_le (fs w) (fs w1)" using download_file_fs_le[OF ex_fails(4)] by simp
  moreover have "fs_le (fs w1) (fs w')" using extract_zip_fs_le[OF ex_fails(5)] by simp
  ultimately show ?thesis by (rule fs_le_trans)
next
  case finished
  with assms have a: "process_file E file w = (Inr (), w')" by simp
  from a show ?thesis
  proof (rule process_file_Inr)
    fix u nm r tsize t base f1 ms f2
    assume "fs w t \<noteq> Some Dir"
      and "mknodes (start (cwd E) (extract_to (file_path nm) ''data''))
       (split_sep (extract_to (file_path nm) ''data''))
       ((fs w)(t \<mapsto> File (concat (chunks r)))) = (Inr base, f1)"
      and "extractall base ms f1 = (Inr (), f2)"
      and "w' = w\<lparr>fs := f2,
        bars := bars w @ [\<lparr>bar_total = tsize, bar_n = length (concat (chunks r)),
                           bar_desc = basename (file_path nm)\<rparr>],
        console := console w @ [''Extracted: '' @ file_path nm @ '' to '' @
                       extract_to (file_path nm) ''data''],
        trace := trace w @ calls_of file\<rparr>"
    then have "fs w' = f2" "fs_le (fs w) ((fs w)(t \<mapsto> File (concat (chunks r))))"
      "fs_le ((fs w)(t \<mapsto> File (concat (chunks r)))) f1" "fs_le f1 f2"
      by (simp_all add: fs_le_put mknodes_le extractall_le)
    then show ?thesis using fs_le_trans by metis
  qed
qed

lemma process_file_trace:
  assumes "process_file E file w = (r, w')"
  shows "\<exists>k. trace w' = trace w @ take k (calls_of file)"
  using assms
proof (cases rule: process_file_cases)
  case no_url
  then show ?thesis by (auto intro: exI[of _ 0])
next
  case (no_name url)
  then show ?thesis by (auto intro: exI[of _ 0])
next
  case (dl_fails url nm e)
  have "trace w' = trace w @ [Begin (Download url (file_path nm))]"
    using download_file_trace[OF dl_fails(4)] by simp
  then show ?thesis using dl_fails(1,2) by (auto simp: calls_of_def intro: exI[of _ 1])
next
  case (ex_fails url nm e w1)
  have "trace w1 = trace w @ [Begin (Download url (file_path nm))]"
    using download_file_trace[OF ex_fails(4)] by simp
  then have "trace w' = trace w @ [Begin (Download url (file_path nm)),
     End (Download url (file_path nm)), Begin (Extract (file_path nm) ''data'')]"
    using extract_zip_trace[OF ex_fails(5)] by simp
  then show ?thesis using ex_fails(1,2) by (auto simp: calls_of_def intro: exI[of _ 3])
next
  case finished
  with assms have a: "process_file E file w = (Inr (), w')" by simp
  from a have "trace w' = trace w @ calls_of file"
    by (rule process_file_Inr) simp
  then show ?thesis by (auto intro: exI[of _ "length (calls_of file)"])
qed

lemma process_file_Inr_calls:
  assumes "process_file E file w = (Inr (), w')"
  shows "trace w' = trace w @ calls_of file"
proof -
  from assms show ?thesis
    by (rule process_file_Inr) simp
qed

lemma main_loop_fs_le: "main_loop E files w = (r, w') \<Longrightarrow> fs_le (fs w) (fs w')"
proof (induction files arbitrary: w)
  case Nil
  then show ?case by (simp add: fs_le_refl)
next
  case (Cons x rest)
  obtain r1 w1 where p: "process_file E x w = (r1, w1)" by fastforce
  have l: "fs_le (fs w) (fs w1)" using p by (rule process_file_fs_le)
  show ?case
  proof (cases r1)
    case (Inl e)
    then show ?thesis using Cons.prems p l by simp
  next
    case (Inr u)
    then have "main_loop E rest w1 = (r, w')" using Cons.prems p by simp
    then show ?thesis using Cons.IH l fs_le_trans by blast
  qed
qed

lemma main_loop_Inr_trace:
  "main_loop E files w = (Inr (), w') \<Longrightarrow> trace w' = trace w @ concat (map calls_of files)"
proof (induction files arbitrary: w)
  case Nil
  then show ?case by simp
next
  case (Cons x rest)
  obtain r1 w1 where p: "process_file E x w = (r1, w1)" by fastforce
  have r1: "r1 = Inr ()" using Cons.prems p by (cases r1) auto
  then have m: "main_loop E rest w1 = (Inr (), w')" using Cons.prems p by simp
  show ?case using Cons.IH[OF m] process_file_Inr_calls[OF p[unfolded r1]] by simp
qed

section \<open>Properties of the script\<close>

lemma makedirs_downloads:
  "makedirs E ''downloads'' w =
     (case fs w (cwd E @ [''downloads'']) of
        Some (File b) \<Rightarrow> (Inl OSError, w)
      | _ \<Rightarrow> (Inr (cwd E @ [''downloads'']), w\<lparr>fs := (fs w)(cwd E @ [''downloads''] \<mapsto> Dir)\<rparr>))"
  by (simp add: makedirs_def start_def split: option.splits inode.splits)

lemma makedirs_data:
  "makedirs E ''data'' w =
     (case fs w (cwd E @ [''data'']) of
        Some (File b) \<Rightarrow> (Inl OSError, w)
      | _ \<Rightarrow> (Inr (cwd E @ [''data'']), w\<lparr>fs := (fs w)(cwd E @ [''data''] \<mapsto> Dir)\<rparr>))"
  by (simp add: makedirs_def start_def split: option.splits inode.splits)

text \<open>
  C8. A manifest with no \<^verbatim>\<open>file\<close> element, where neither \<^verbatim>\<open>downloads\<close> nor
  \<^verbatim>\<open>data\<close> is a regular file already: the script returns normally, no call is
  recorded and no progress bar is shown, the file system changes in exactly the two
  folders, and the last line printed is the completion message.
\<close>

theorem empty_manifest_makes_two_folders:
  assumes "kind_of (fs w (cwd E @ [''downloads''])) \<noteq> Regular"
    and "kind_of (fs w (cwd E @ [''data''])) \<noteq> Regular"
  shows "main E (Inr []) w =
     (Inr (),
      w\<lparr>fs := (fs w)(cwd E @ [''downloads''] \<mapsto> Dir, cwd E @ [''data''] \<mapsto> Dir),
        console := console w @ [''Download and extraction complete.'']\<rparr>)"
  using assms
  by (auto simp: main_def makedirs_downloads makedirs_data kind_of_Regular
      split: option.splits inode.splits)

theorem empty_manifest_makes_two_folders_witness:
  "main example_env (Inr []) fresh_world =
     (Inr (),
      \<lparr>fs = [[''work''] \<mapsto> Dir, [''work'', ''downloads''] \<mapsto> Dir, [''work'', ''data''] \<mapsto> Dir],
       bars = [], console = [''Download and extraction complete.''], trace = []\<rparr>)"
  using empty_manifest_makes_two_folders[of fresh_world example_env]
  by (simp add: fresh_world_def example_env_def)

lemma main_cases:
  assumes "main E (Inr files) w = (r, w')"
  obtains (dirs_fail) e where "r = Inl e" "bars w' = bars w" "console w' = console w"
      "fs_le (fs w) (fs w')"
  | (looped) d1 wa d2 wb w3 where "makedirs E ''downloads'' w = (Inr d1, wa)"
      "makedirs E ''data'' wa = (Inr d2, wb)"
      "main_loop E files wb = (r, w3)"
      "w' = (case r of Inl e \<Rightarrow> w3
             | Inr u \<Rightarrow> w3\<lparr>console := console w3 @ [''Download and extraction complete.'']\<rparr>)"
proof -
  obtain r1 wa where m1: "makedirs E ''downloads'' w = (r1, wa)" by fastforce
  note a1 = makedirs_rest[OF m1] makedirs_fs_le[OF m1]
  show ?thesis
  proof (cases r1)
    case (Inl e)
    then show ?thesis using assms m1 a1 dirs_fail[of e] by (simp add: main_def)
  next
    case (Inr d1)
    note r1 = this
    obtain r2 wb where m2: "makedirs E ''data'' wa = (r2, wb)" by fastforce
    note a2 = makedirs_rest[OF m2] makedirs_fs_le[OF m2]
    have le: "fs_le (fs w) (fs wb)" using a1(2) a2(2) by (rule fs_le_trans)
    show ?thesis
    proof (cases r2)
      case (Inl e)
      then show ?thesis using assms m1 r1 m2 a1 a2 le dirs_fail[of e] by (simp add: main_def)
    next
      case (Inr d2)
      obtain r3 w3 where l: "main_loop E files wb = (r3, w3)" by fastforce
      have "r = r3" using assms m1 r1 m2 Inr l by (cases r3) (auto simp: main_def)
      moreover have "w' = (case r3 of Inl e \<Rightarrow> w3
             | Inr u \<Rightarrow> w3\<lparr>console := console w3 @ [''Download and extraction complete.'']\<rparr>)"
        using assms m1 r1 m2 Inr l by (cases r3) (auto simp: main_def)
      ultimately show ?thesis using looped[of d1 wa d2 wb w3] l m1 r1 m2 Inr by simp
    qed
  qed
qed

lemmas run_defs = total_fits_small hi_zip_def main_def makedirs_def start_def process_file_def download_file_def total_size_def
  py_int_def strip_def isspace_def isdigit_def digits_value_def open_wb_def locate_def
  file_path_def join_def extract_zip_def extract_to_def zip_name_def basename_def splitext_def
  read_file_def file_write_def Let_def

lemma fs_le_kind: "fs_le f g \<Longrightarrow> kind_of (f t) \<noteq> Absent \<Longrightarrow> kind_of (g t) = kind_of (f t)"
  unfolding fs_le_def by blast

lemma has_outputs_mono: "fs_le f g \<Longrightarrow> has_outputs E f x \<Longrightarrow> has_outputs E g x"
proof -
  assume l: "fs_le f g" and h: "has_outputs E f x"
  from h obtain nm where nm: "name_attr x = Some nm"
    by (cases "name_attr x") (auto simp: has_outputs_def)
  let ?p = "file_path nm"
  from h nm obtain t where t: "locate (start (cwd E) ?p) ?p f = Some t" "kind_of (f t) = Regular"
    by (cases "locate (start (cwd E) ?p) ?p f") (auto simp: has_outputs_def)
  from h nm obtain d where d: "walk f (start (cwd E) (extract_to ?p ''data''))
            (split_sep (extract_to ?p ''data'')) = Some d"
    by (auto simp: has_outputs_def)
  have "kind_of (g t) = Regular" using fs_le_kind[OF l, of t] t(2) by simp
  then show ?thesis using nm locate_mono[OF l t(1)] walk_mono[OF l d]
    by (simp add: has_outputs_def)
qed

lemma process_file_has_outputs:
  assumes "process_file E x w = (Inr (), w')"
  shows "has_outputs E (fs w') x"
  using assms
proof (rule process_file_Inr)
  fix u nm and r :: response and tsize t base f1 ms f2
  let ?p = "file_path nm"
  let ?f = "(fs w)(t \<mapsto> File (concat (chunks r)))"
  assume nm: "name_attr x = Some nm"
    and lo: "locate (start (cwd E) ?p) ?p (fs w) = Some t"
    and nd: "fs w t \<noteq> Some Dir"
    and mk: "mknodes (start (cwd E) (extract_to ?p ''data''))
       (split_sep (extract_to ?p ''data'')) ?f = (Inr base, f1)"
    and ex: "extractall base ms f1 = (Inr (), f2)"
    and w': "w' = w\<lparr>fs := f2,
        bars := bars w @ [\<lparr>bar_total = tsize, bar_n = length (concat (chunks r)),
                           bar_desc = basename ?p\<rparr>],
        console := console w @ [''Extracted: '' @ ?p @ '' to '' @ extract_to ?p ''data''],
        trace := trace w @ calls_of x\<rparr>"
  have l0: "fs_le (fs w) ?f" using nd by (simp add: fs_le_put)
  have l1: "fs_le ?f f1" using mk by (rule mknodes_le)
  have l2: "fs_le f1 f2" using ex by (rule extractall_le)
  have l: "fs_le (fs w) f2" using l0 l1 l2 fs_le_trans by blast
  have "kind_of (f2 t) = Regular"
    using fs_le_kind[OF fs_le_trans[OF l1 l2], of t] by simp
  moreover have "walk f2 (start (cwd E) (extract_to ?p ''data''))
       (split_sep (extract_to ?p ''data'')) = Some base"
    using walk_mono[OF l2 mknodes_walk[OF mk]] .
  ultimately show ?thesis using nm locate_mono[OF l lo] w'
    by (simp add: has_outputs_def)
qed

lemma main_loop_has_outputs:
  "main_loop E xs w = (Inr (), w') \<Longrightarrow> list_all (has_outputs E (fs w')) xs"
proof (induction xs arbitrary: w)
  case Nil
  then show ?case by simp
next
  case (Cons x rest)
  obtain r1 w1 where p: "process_file E x w = (r1, w1)" by fastforce
  have r1: "r1 = Inr ()" using Cons.prems p by (cases r1) auto
  then have m: "main_loop E rest w1 = (Inr (), w')" using Cons.prems p by simp
  have "has_outputs E (fs w1) x" using p r1 process_file_has_outputs by simp
  then have "has_outputs E (fs w') x"
    using has_outputs_mono[OF main_loop_fs_le[OF m]] by simp
  then show ?case using Cons.IH[OF m] by simp
qed

lemma main_loop_append:
  "main_loop E (xs @ ys) w =
     (case main_loop E xs w of (Inl e, w1) \<Rightarrow> (Inl e, w1) | (Inr u, w1) \<Rightarrow> main_loop E ys w1)"
  by (induction xs arbitrary: w) (auto split: prod.splits sum.splits)

lemma process_file_shown:
  assumes "process_file E x w = (r, w')"
  shows "console w' = console w @ (if r = Inr () then [extracted_line x] else []) \<and>
    (map bar_desc (bars w') = map bar_desc (bars w) \<and> r \<noteq> Inr () \<or>
     map bar_desc (bars w') = map bar_desc (bars w) @ [label x])"
  using assms
proof (cases rule: process_file_cases)
  case no_url
  then show ?thesis by simp
next
  case (no_name url)
  then show ?thesis by simp
next
  case (dl_fails url nm e)
  from download_file_shown[OF dl_fails(4)] show ?thesis
    using dl_fails(2,3) by (auto simp: label_def)
next
  case (ex_fails url nm e w1)
  from download_file_shown[OF ex_fails(4)] extract_zip_shown[OF ex_fails(5)] show ?thesis
    using ex_fails(2,3) by (auto simp: label_def)
next
  case finished
  with assms have a: "process_file E x w = (Inr (), w')" by simp
  from a have "console w' = console w @ [extracted_line x] \<and>
     map bar_desc (bars w') = map bar_desc (bars w) @ [label x]"
    by (rule process_file_Inr) (simp add: label_def extracted_line_def)
  then show ?thesis using finished by simp
qed

lemma main_loop_shown:
  "main_loop E files w = (r, w') \<Longrightarrow>
   \<exists>k\<le>length files.
     console w' = console w @ map extracted_line (take k files) \<and>
     list_all (has_outputs E (fs w')) (take k files) \<and>
     (map bar_desc (bars w') = map bar_desc (bars w) @ map label (take k files) \<or>
      r \<noteq> Inr () \<and> k < length files \<and>
      map bar_desc (bars w') = map bar_desc (bars w) @ map label (take (Suc k) files)) \<and>
     (r = Inr () \<longrightarrow> k = length files) \<and> (r \<noteq> Inr () \<longrightarrow> k < length files)"
proof (induction files arbitrary: w)
  case Nil
  then show ?case by simp
next
  case (Cons x rest)
  obtain r1 w1 where p: "process_file E x w = (r1, w1)" by fastforce
  note s = process_file_shown[OF p]
  show ?case
  proof (cases r1)
    case (Inl e)
    then have "w' = w1" "r = Inl e" using Cons.prems p by simp_all
    then show ?thesis using s Inl by (intro exI[of _ 0]) auto
  next
    case (Inr u)
    then have r1: "r1 = Inr ()" by simp
    have m: "main_loop E rest w1 = (r, w')" using Cons.prems p Inr by simp
    have "has_outputs E (fs w1) x" using p r1 process_file_has_outputs by simp
    then have h: "has_outputs E (fs w') x"
      using has_outputs_mono[OF main_loop_fs_le[OF m]] by simp
    have c1: "console w1 = console w @ [extracted_line x]" using s r1 by simp
    have b1: "map bar_desc (bars w1) = map bar_desc (bars w) @ [label x]" using s r1 by simp
    obtain k where k: "k \<le> length rest"
      "console w' = console w1 @ map extracted_line (take k rest)"
      "list_all (has_outputs E (fs w')) (take k rest)"
      "map bar_desc (bars w') = map bar_desc (bars w1) @ map label (take k rest) \<or>
        r \<noteq> Inr () \<and> k < length rest \<and>
        map bar_desc (bars w') = map bar_desc (bars w1) @ map label (take (Suc k) rest)"
      "r = Inr () \<longrightarrow> k = length rest" "r \<noteq> Inr () \<longrightarrow> k < length rest"
      using Cons.IH[OF m] by blast
    show ?thesis
      using k h c1 b1 by (intro exI[of _ "Suc k"]) auto
  qed
qed

lemma main_loop_split:
  assumes "main_loop E (pre @ post) w = (Inr (), w3)"
  obtains w1 where "main_loop E pre w = (Inr (), w1)" "main_loop E post w1 = (Inr (), w3)"
proof -
  obtain r1 w1 where p: "main_loop E pre w = (r1, w1)" by fastforce
  have r1: "r1 = Inr ()" using assms p by (cases r1) (auto simp: main_loop_append)
  then have "main_loop E post w1 = (Inr (), w3)" using assms p by (simp add: main_loop_append)
  then show ?thesis using that p r1 by simp
qed

lemma main_loop_shown_Inr:
  assumes "main_loop E files w = (Inr (), w')"
  shows "console w' = console w @ map extracted_line files"
    "map bar_desc (bars w') = map bar_desc (bars w) @ map label files"
    "list_all (has_outputs E (fs w')) files"
  using main_loop_shown[OF assms] by auto

text \<open>
  C2 (as amended). The \<^verbatim>\<open>file\<close> elements are processed in document order, one after
  the other. However the run ends, what it has shown and left is what the first \<open>k\<close>
  elements show and leave when they are processed completely (the progress bar of the
  download, the line the extraction prints, the artifact and the extraction folder),
  and of the next element at most the progress bar of its download; nothing of a later
  element. When the run returns, \<open>k\<close> is the number of elements: one download and one
  extraction for each, and the completion message; when it raises, \<open>k\<close> is smaller
  (unless there is no element at all). And in a run that returns, the elements
  \<open>post\<close> are processed from the state the elements \<open>pre\<close> before them have
  left, in which every download and extraction of \<open>pre\<close> is complete and none of
  \<open>post\<close> has begun.
\<close>

theorem entries_in_document_order:
  assumes "main E (Inr files) w = (r, w')"
  shows "(\<exists>k\<le>length files.
      console w' = console w @ map extracted_line (take k files) @
        (if r = Inr () then [''Download and extraction complete.''] else []) \<and>
      list_all (has_outputs E (fs w')) (take k files) \<and>
      (map bar_desc (bars w') = map bar_desc (bars w) @ map label (take k files) \<or>
       r \<noteq> Inr () \<and> k < length files \<and>
       map bar_desc (bars w') = map bar_desc (bars w) @ map label (take (Suc k) files)) \<and>
      (r = Inr () \<longrightarrow> k = length files) \<and>
      (r \<noteq> Inr () \<longrightarrow> k < length files \<or> files = [])) \<and>
    (r = Inr () \<and> files = pre @ post \<longrightarrow>
      (\<exists>d1 wa d2 wb w1 w3.
         makedirs E ''downloads'' w = (Inr d1, wa) \<and> makedirs E ''data'' wa = (Inr d2, wb) \<and>
         main_loop E pre wb = (Inr (), w1) \<and> main_loop E post w1 = (Inr (), w3) \<and>
         w' = w3\<lparr>console := console w3 @ [''Download and extraction complete.'']\<rparr> \<and>
         console w1 = console w @ map extracted_line pre \<and>
         map bar_desc (bars w1) = map bar_desc (bars w) @ map label pre \<and>
         list_all (has_outputs E (fs w1)) pre \<and>
         console w3 = console w1 @ map extracted_line post \<and>
         map bar_desc (bars w3) = map bar_desc (bars w1) @ map label post \<and>
         list_all (has_outputs E (fs w3)) post))"
  using assms
proof (cases rule: main_cases)
  case (dirs_fail e)
  then show ?thesis by (intro conjI exI[of _ 0]) simp_all
next
  case (looped d1 wa d2 wb w3)
  note r1 = makedirs_rest[OF looped(1)] and r2 = makedirs_rest[OF looped(2)]
  have cb: "console wb = console w" "bars wb = bars w" using r1 r2 by simp_all
  have fw: "fs w' = fs w3" "bars w' = bars w3" using looped(4) by (cases r; simp)+
  have cw: "console w' = console w3 @
      (if r = Inr () then [''Download and extraction complete.''] else [])"
    using looped(4) by (cases r) simp_all
  obtain k where k: "k \<le> length files"
    "console w3 = console wb @ map extracted_line (take k files)"
    "list_all (has_outputs E (fs w3)) (take k files)"
    "map bar_desc (bars w3) = map bar_desc (bars wb) @ map label (take k files) \<or>
      r \<noteq> Inr () \<and> k < length files \<and>
      map bar_desc (bars w3) = map bar_desc (bars wb) @ map label (take (Suc k) files)"
    "r = Inr () \<longrightarrow> k = length files" "r \<noteq> Inr () \<longrightarrow> k < length files"
    using main_loop_shown[OF looped(3)] by blast
  have A: "\<exists>k\<le>length files.
      console w' = console w @ map extracted_line (take k files) @
        (if r = Inr () then [''Download and extraction complete.''] else []) \<and>
      list_all (has_outputs E (fs w')) (take k files) \<and>
      (map bar_desc (bars w') = map bar_desc (bars w) @ map label (take k files) \<or>
       r \<noteq> Inr () \<and> k < length files \<and>
       map bar_desc (bars w') = map bar_desc (bars w) @ map label (take (Suc k) files)) \<and>
      (r = Inr () \<longrightarrow> k = length files) \<and>
      (r \<noteq> Inr () \<longrightarrow> k < length files \<or> files = [])"
    using k cb fw cw by (intro exI[of _ k]) simp
  have B: "\<exists>d1 wa d2 wb w1 w3.
         makedirs E ''downloads'' w = (Inr d1, wa) \<and> makedirs E ''data'' wa = (Inr d2, wb) \<and>
         main_loop E pre wb = (Inr (), w1) \<and> main_loop E post w1 = (Inr (), w3) \<and>
         w' = w3\<lparr>console := console w3 @ [''Download and extraction complete.'']\<rparr> \<and>
         console w1 = console w @ map extracted_line pre \<and>
         map bar_desc (bars w1) = map bar_desc (bars w) @ map label pre \<and>
         list_all (has_outputs E (fs w1)) pre \<and>
         console w3 = console w1 @ map extracted_line post \<and>
         map bar_desc (bars w3) = map bar_desc (bars w1) @ map label post \<and>
         list_all (has_outputs E (fs w3)) post"
    if r: "r = Inr ()" and f: "files = pre @ post"
  proof -
    have l: "main_loop E (pre @ post) wb = (Inr (), w3)" using looped(3) r f by simp
    from l obtain w1 where p1: "main_loop E pre wb = (Inr (), w1)"
      and p2: "main_loop E post w1 = (Inr (), w3)" by (rule main_loop_split)
    have w': "w' = w3\<lparr>console := console w3 @ [''Download and extraction complete.'']\<rparr>"
      using looped(4) r by simp
    show ?thesis
      using looped(1,2) p1 p2 w' main_loop_shown_Inr[OF p1] main_loop_shown_Inr[OF p2] cb
      by (intro exI[of _ d1] exI[of _ wa] exI[of _ d2] exI[of _ wb] exI[of _ w1] exI[of _ w3])
        simp
  qed
  show ?thesis using A B by blast
qed

theorem entries_in_document_order_witness:
  "fst (main example_env (Inr example_manifest) fresh_world) = Inr () \<and>
   console (snd (main example_env (Inr example_manifest) fresh_world)) =
     [''Extracted: downloads/a.zip to data/a'', ''Extracted: downloads/b.zip to data/b'',
      ''Download and extraction complete.''] \<and>
   map bar_desc (bars (snd (main example_env (Inr example_manifest) fresh_world))) =
     [''a.zip'', ''b.zip''] \<and>
   list_all (has_outputs example_env (fs (snd (main example_env (Inr example_manifest) fresh_world))))
     example_manifest \<and>
   (\<exists>wb w1 w3.
      main_loop example_env
        [\<lparr>name_attr = Some ''a.zip'', url_elem = Some (Some ''http://host/a.zip'')\<rparr>] wb =
        (Inr (), w1) \<and>
      main_loop example_env
        [\<lparr>name_attr = Some ''b.zip'', url_elem = Some (Some ''http://host/b.zip'')\<rparr>] w1 =
        (Inr (), w3) \<and>
      snd (main example_env (Inr example_manifest) fresh_world) =
        w3\<lparr>console := console w3 @ [''Download and extraction complete.'']\<rparr> \<and>
      console w1 = [''Extracted: downloads/a.zip to data/a''] \<and>
      map bar_desc (bars w1) = [''a.zip''] \<and>
      console w3 = console w1 @ [''Extracted: downloads/b.zip to data/b''] \<and>
      map bar_desc (bars w3) = map bar_desc (bars w1) @ [''b.zip''])"
proof -
  let ?a = "\<lparr>name_attr = Some ''a.zip'', url_elem = Some (Some ''http://host/a.zip'')\<rparr>"
  let ?b = "\<lparr>name_attr = Some ''b.zip'', url_elem = Some (Some ''http://host/b.zip'')\<rparr>"
  have r: "fst (main example_env (Inr example_manifest) fresh_world) = Inr ()"
    by (simp add: run_defs example_env_def example_net_def example_manifest_def fresh_world_def
        empty_zip_def)
  have m: "main example_env (Inr example_manifest) fresh_world =
      (Inr (), snd (main example_env (Inr example_manifest) fresh_world))"
    using r by (metis prod.collapse)
  have s: "example_manifest = [?a] @ [?b]" by (simp add: example_manifest_def)
  have e: "map extracted_line example_manifest =
      [''Extracted: downloads/a.zip to data/a'', ''Extracted: downloads/b.zip to data/b'']"
    "map label example_manifest = [''a.zip'', ''b.zip'']"
    "extracted_line ?a = ''Extracted: downloads/a.zip to data/a''"
    "extracted_line ?b = ''Extracted: downloads/b.zip to data/b''"
    "label ?a = ''a.zip''" "label ?b = ''b.zip''"
    by (simp_all add: example_manifest_def extracted_line_def label_def file_path_def join_def
        extract_to_def zip_name_def basename_def splitext_def Let_def)
  note t = entries_in_document_order[OF m, of "[?a]" "[?b]"]
  have A: "console (snd (main example_env (Inr example_manifest) fresh_world)) =
     [''Extracted: downloads/a.zip to data/a'', ''Extracted: downloads/b.zip to data/b'',
      ''Download and extraction complete.''] \<and>
   map bar_desc (bars (snd (main example_env (Inr example_manifest) fresh_world))) =
     [''a.zip'', ''b.zip''] \<and>
   list_all (has_outputs example_env (fs (snd (main example_env (Inr example_manifest) fresh_world))))
     example_manifest"
    using t[THEN conjunct1] e(1,2) by (auto simp: fresh_world_def)
  from t[THEN conjunct2] s obtain d1 wa d2 wb w1 w3 where
    B: "main_loop example_env [?a] wb = (Inr (), w1)" "main_loop example_env [?b] w1 = (Inr (), w3)"
      "snd (main example_env (Inr example_manifest) fresh_world) =
        w3\<lparr>console := console w3 @ [''Download and extraction complete.'']\<rparr>"
      "console w1 = console fresh_world @ map extracted_line [?a]"
      "map bar_desc (bars w1) = map bar_desc (bars fresh_world) @ map label [?a]"
      "console w3 = console w1 @ map extracted_line [?b]"
      "map bar_desc (bars w3) = map bar_desc (bars w1) @ map label [?b]"
    by blast
  have "\<exists>wb w1 w3.
      main_loop example_env [?a] wb = (Inr (), w1) \<and>
      main_loop example_env [?b] w1 = (Inr (), w3) \<and>
      snd (main example_env (Inr example_manifest) fresh_world) =
        w3\<lparr>console := console w3 @ [''Download and extraction complete.'']\<rparr> \<and>
      console w1 = [''Extracted: downloads/a.zip to data/a''] \<and>
      map bar_desc (bars w1) = [''a.zip''] \<and>
      console w3 = console w1 @ [''Extracted: downloads/b.zip to data/b''] \<and>
      map bar_desc (bars w3) = map bar_desc (bars w1) @ [''b.zip'']"
    using B e(3-6) by (intro exI[of _ wb] exI[of _ w1] exI[of _ w3]) (simp add: fresh_world_def)
  then show ?thesis using r A by blast
qed

text \<open>
  C2 as stated fails: a manifest of two elements, the first of which is answered with
  a body that is no archive. The run makes one download and no extraction, and raises;
  the second element is not downloaded.
\<close>

theorem failing_entry_is_not_extracted:
  "fst (main example_env
     (Inr [\<lparr>name_attr = Some ''c.zip'', url_elem = Some (Some ''http://host/c.zip'')\<rparr>,
            \<lparr>name_attr = Some ''b.zip'', url_elem = Some (Some ''http://host/b.zip'')\<rparr>])
     fresh_world) = Inl BadZipFile \<and>
   map bar_desc (bars (snd (main example_env
     (Inr [\<lparr>name_attr = Some ''c.zip'', url_elem = Some (Some ''http://host/c.zip'')\<rparr>,
            \<lparr>name_attr = Some ''b.zip'', url_elem = Some (Some ''http://host/b.zip'')\<rparr>])
     fresh_world))) = [''c.zip''] \<and>
   console (snd (main example_env
     (Inr [\<lparr>name_attr = Some ''c.zip'', url_elem = Some (Some ''http://host/c.zip'')\<rparr>,
            \<lparr>name_attr = Some ''b.zip'', url_elem = Some (Some ''http://host/b.zip'')\<rparr>])
     fresh_world)) = [] \<and>
   fs (snd (main example_env
     (Inr [\<lparr>name_attr = Some ''c.zip'', url_elem = Some (Some ''http://host/c.zip'')\<rparr>,
            \<lparr>name_attr = Some ''b.zip'', url_elem = Some (Some ''http://host/b.zip'')\<rparr>])
     fresh_world)) [''work'', ''downloads'', ''b.zip''] = None"
  by (simp add: run_defs example_env_def example_net_def fresh_world_def empty_zip_def)

lemma non_zip_body_fails:
  assumes "url_elem x = Some (Some u)" "name_attr x = Some nm"
    "net E u = Some r" "\<not> broken r" "total_size (int_max_str_digits E) r = Inr n"
    "total_fits n"
    "open_wb (start (cwd E) (file_path nm)) (file_path nm) (fs w) = Inr (t, f1)"
    "unzip E (concat (chunks r)) = None"
  shows "\<exists>e w2. (e = BadZipFile \<or> e = OSError) \<and> process_file E x w = (Inl e, w2) \<and>
    fs w2 t = Some (File (concat (chunks r))) \<and> console w2 = console w \<and>
    map bar_desc (bars w2) = map bar_desc (bars w) @ [label x]"
proof -
  let ?p = "file_path nm"
  let ?body = "concat (chunks r)"
  let ?w0 = "w\<lparr>trace := trace w @ [Begin (Download (Some u) ?p)]\<rparr>"
  let ?f = "(fs w)(t \<mapsto> File ?body)"
  let ?b = "\<lparr>bar_total = n, bar_n = length ?body, bar_desc = basename ?p\<rparr>"
  have lo: "locate (start (cwd E) ?p) ?p (fs w) = Some t" and nd: "fs w t \<noteq> Some Dir"
    using assms(7) by (simp_all add: open_wb_Inr)
  have o: "open_wb (start (cwd E) ?p) ?p (fs ?w0) = Inr (t, f1)" using assms(7) by simp
  have d: "download_file E (Some u) ?p ?w0 = (Inr (), ?w0\<lparr>fs := ?f, bars := bars w @ [?b]\<rparr>)"
    using download_file_opened[OF assms(3,5) o] assms(4,6) by simp
  let ?w1 = "?w0\<lparr>fs := ?f, bars := bars w @ [?b],
        trace := trace ?w0 @ [End (Download (Some u) ?p), Begin (Extract ?p ''data'')]\<rparr>"
  obtain r1 g where mk: "mknodes (start (cwd E) (extract_to ?p ''data''))
       (split_sep (extract_to ?p ''data'')) ?f = (r1, g)" by fastforce
  have l0: "fs_le (fs w) ?f" using nd by (simp add: fs_le_put)
  have l1: "fs_le ?f g" using mk by (rule mknodes_le)
  have gt: "g t = Some (File ?body)" using mknodes_files[OF mk, of t] by simp
  have "\<exists>e. (e = BadZipFile \<or> e = OSError) \<and>
      extract_zip E ?p ''data'' ?w1 = (Inl e, ?w1\<lparr>fs := g\<rparr>)"
  proof (cases r1)
    case (Inl e)
    then have "e = OSError" using mk mknodes_error by blast
    then show ?thesis using Inl mk
      by (simp add: extract_zip_def makedirs_def extract_to_nonempty)
  next
    case (Inr base)
    have "locate (start (cwd E) ?p) ?p g = Some t"
      using locate_mono[OF fs_le_trans[OF l0 l1]] lo by simp
    then have rd: "read_file (start (cwd E) ?p) ?p g = Inr ?body"
      using gt by (simp add: read_file_Inr)
    show ?thesis using Inr mk rd assms(8)
      by (simp add: extract_zip_def makedirs_def extract_to_nonempty)
  qed
  then obtain e where e: "e = BadZipFile \<or> e = OSError"
    and x: "extract_zip E ?p ''data'' ?w1 = (Inl e, ?w1\<lparr>fs := g\<rparr>)" by blast
  have "process_file E x w = (Inl e, ?w1\<lparr>fs := g\<rparr>)"
    using assms(1,2) d x by (simp add: process_file_def)
  then show ?thesis using e gt assms(2) by (auto simp: label_def)
qed

text \<open>
  C1 (as amended). The status code of a response is never looked at. Whatever the
  status, when the \<^verbatim>\<open>content-length\<close> header is absent or a number below \<^verbatim>\<open>2**64\<close>,
  the body arrives whole and the destination can be opened, \<^verbatim>\<open>download_file\<close> writes
  the body to the destination and returns. The element fails when that body is no zip
  archive (an error page, say): the extraction
  raises \<^verbatim>\<open>BadZipFile\<close> (or \<^verbatim>\<open>OSError\<close>, when its folder cannot be made), the
  script ends with that error, the body stays in the destination, nothing of a later
  element is downloaded or extracted, and the outputs of the earlier elements remain.
  When the body is an archive that can be unpacked the element succeeds, and the loop
  goes on to the next.
\<close>

theorem non_zip_body_is_fatal:
  assumes "makedirs E ''downloads'' w = (Inr d1, wa)"
    and "makedirs E ''data'' wa = (Inr d2, wb)"
    and "main_loop E pre wb = (Inr (), w1)"
    and "url_elem x = Some (Some u)" and "name_attr x = Some nm"
    and "net E u = Some r" and "\<not> broken r"
    and "total_size (int_max_str_digits E) r = Inr n" and "\<bar>n\<bar> < 2 ^ 64"
    and "open_wb (start (cwd E) (file_path nm)) (file_path nm) (fs w1) = Inr (t, f1)"
  shows "download_file E (Some u) (file_path nm) w1 =
      (Inr (),
       w1\<lparr>fs := (fs w1)(t \<mapsto> File (concat (chunks r))),
          bars := bars w1 @ [\<lparr>bar_total = n, bar_n = length (concat (chunks r)),
                               bar_desc = basename (file_path nm)\<rparr>]\<rparr>) \<and>
    (unzip E (concat (chunks r)) = None \<longrightarrow>
       (\<exists>e w2. (e = BadZipFile \<or> e = OSError) \<and>
          main E (Inr (pre @ x # post)) w = (Inl e, w2) \<and>
          process_file E x w1 = (Inl e, w2) \<and>
          fs w2 t = Some (File (concat (chunks r))) \<and>
          fs_le (fs w1) (fs w2) \<and>
          list_all (has_outputs E (fs w2)) pre \<and>
          map bar_desc (bars w2) = map bar_desc (bars w) @ map label pre @ [label x] \<and>
          console w2 = console w @ map extracted_line pre)) \<and>
    (unzip E (concat (chunks r)) = Some ms \<and>
     mknodes (start (cwd E) (extract_to (file_path nm) ''data''))
       (split_sep (extract_to (file_path nm) ''data''))
       ((fs w1)(t \<mapsto> File (concat (chunks r)))) = (Inr base, g1) \<and>
     extractall base ms g1 = (Inr (), g2) \<longrightarrow>
       fst (process_file E x w1) = Inr () \<and>
       main_loop E (pre @ x # post) wb = main_loop E post (snd (process_file E x w1)))"
proof -
  let ?body = "concat (chunks r)"
  have fits: "total_fits n" using assms(9) by (rule total_fits_small)
  have lo: "locate (start (cwd E) (file_path nm)) (file_path nm) (fs w1) = Some t"
    and nd: "fs w1 t \<noteq> Some Dir"
    using assms(10) by (simp_all add: open_wb_Inr)
  have D: "download_file E (Some u) (file_path nm) w1 =
      (Inr (),
       w1\<lparr>fs := (fs w1)(t \<mapsto> File ?body),
          bars := bars w1 @ [\<lparr>bar_total = n, bar_n = length ?body,
                               bar_desc = basename (file_path nm)\<rparr>]\<rparr>)"
    using download_file_opened[OF assms(6,8,10)] assms(7) fits by simp
  have c1: "console w1 = console w @ map extracted_line pre"
    and b1: "map bar_desc (bars w1) = map bar_desc (bars w) @ map label pre"
    using main_loop_shown_Inr[OF assms(3)] makedirs_rest[OF assms(1)] makedirs_rest[OF assms(2)]
    by simp_all
  have F: "\<exists>e w2. (e = BadZipFile \<or> e = OSError) \<and>
          main E (Inr (pre @ x # post)) w = (Inl e, w2) \<and>
          process_file E x w1 = (Inl e, w2) \<and>
          fs w2 t = Some (File ?body) \<and>
          fs_le (fs w1) (fs w2) \<and>
          list_all (has_outputs E (fs w2)) pre \<and>
          map bar_desc (bars w2) = map bar_desc (bars w) @ map label pre @ [label x] \<and>
          console w2 = console w @ map extracted_line pre"
    if nz: "unzip E ?body = None"
  proof -
    from non_zip_body_fails[OF assms(4,5,6,7,8) fits assms(10) nz]
    obtain e w2 where e: "e = BadZipFile \<or> e = OSError"
      and p: "process_file E x w1 = (Inl e, w2)"
      and k: "fs w2 t = Some (File ?body)" "console w2 = console w1"
        "map bar_desc (bars w2) = map bar_desc (bars w1) @ [label x]" by blast
    have a: "main_loop E (pre @ x # post) wb = (Inl e, w2)"
      using assms(3) p by (simp add: main_loop_append)
    have m: "main E (Inr (pre @ x # post)) w = (Inl e, w2)"
      using assms(1,2) a by (simp add: main_def)
    have l: "fs_le (fs w1) (fs w2)" using p by (rule process_file_fs_le)
    have h: "list_all (has_outputs E (fs w2)) pre"
      using main_loop_has_outputs[OF assms(3)] has_outputs_mono[OF l]
      by (simp add: list_all_iff)
    show ?thesis using e m p k l h c1 b1 by auto
  qed
  have G: "fst (process_file E x w1) = Inr () \<and>
       main_loop E (pre @ x # post) wb = main_loop E post (snd (process_file E x w1))"
    if uz: "unzip E ?body = Some ms"
      and mk: "mknodes (start (cwd E) (extract_to (file_path nm) ''data''))
       (split_sep (extract_to (file_path nm) ''data''))
       ((fs w1)(t \<mapsto> File ?body)) = (Inr base, g1)"
      and ex: "extractall base ms g1 = (Inr (), g2)"
    using process_file_intro[OF assms(4,5,6,7,8) lo nd mk uz ex fits] assms(3)
    by (simp add: main_loop_append)
  show ?thesis using D F G by blast
qed


theorem non_zip_body_is_fatal_witness:
  "fst (main example_env
     (Inr [\<lparr>name_attr = Some ''a.zip'', url_elem = Some (Some ''http://host/a.zip'')\<rparr>,
            \<lparr>name_attr = Some ''c.zip'', url_elem = Some (Some ''http://host/c.zip'')\<rparr>,
            \<lparr>name_attr = Some ''b.zip'', url_elem = Some (Some ''http://host/b.zip'')\<rparr>])
     fresh_world) = Inl BadZipFile \<and>
   fs (snd (main example_env
     (Inr [\<lparr>name_attr = Some ''a.zip'', url_elem = Some (Some ''http://host/a.zip'')\<rparr>,
            \<lparr>name_attr = Some ''c.zip'', url_elem = Some (Some ''http://host/c.zip'')\<rparr>,
            \<lparr>name_attr = Some ''b.zip'', url_elem = Some (Some ''http://host/b.zip'')\<rparr>])
     fresh_world)) [''work'', ''downloads'', ''c.zip''] =
     Some (File [78, 111, 116, 32, 70, 111, 117, 110, 100]) \<and>
   map bar_desc (bars (snd (main example_env
     (Inr [\<lparr>name_attr = Some ''a.zip'', url_elem = Some (Some ''http://host/a.zip'')\<rparr>,
            \<lparr>name_attr = Some ''c.zip'', url_elem = Some (Some ''http://host/c.zip'')\<rparr>,
            \<lparr>name_attr = Some ''b.zip'', url_elem = Some (Some ''http://host/b.zip'')\<rparr>])
     fresh_world))) = [''a.zip'', ''c.zip''] \<and>
   console (snd (main example_env
     (Inr [\<lparr>name_attr = Some ''a.zip'', url_elem = Some (Some ''http://host/a.zip'')\<rparr>,
            \<lparr>name_attr = Some ''c.zip'', url_elem = Some (Some ''http://host/c.zip'')\<rparr>,
            \<lparr>name_attr = Some ''b.zip'', url_elem = Some (Some ''http://host/b.zip'')\<rparr>])
     fresh_world)) = [''Extracted: downloads/a.zip to data/a''] \<and>
   download_file example_env (Some ''http://host/b.zip'') ''downloads/b.zip'' ready_world =
     (Inr (),
      ready_world\<lparr>fs := (fs ready_world)([''work'', ''downloads'', ''b.zip''] \<mapsto> File empty_zip),
        bars := [\<lparr>bar_total = 22, bar_n = 22, bar_desc = ''b.zip''\<rparr>]\<rparr>) \<and>
   fst (process_file example_env
     \<lparr>name_attr = Some ''b.zip'', url_elem = Some (Some ''http://host/b.zip'')\<rparr> ready_world) = Inr ()"
proof -
  let ?a = "\<lparr>name_attr = Some ''a.zip'', url_elem = Some (Some ''http://host/a.zip'')\<rparr>"
  let ?c = "\<lparr>name_attr = Some ''c.zip'', url_elem = Some (Some ''http://host/c.zip'')\<rparr>"
  let ?b = "\<lparr>name_attr = Some ''b.zip'', url_elem = Some (Some ''http://host/b.zip'')\<rparr>"
  let ?rc = "\<lparr>status_code = 404, content_length = Some ''9'',
              chunks = [[78, 111, 116, 32, 70, 111, 117, 110, 100]], broken = False\<rparr>"
  let ?rb = "\<lparr>status_code = 404, content_length = Some ''22'',
              chunks = [empty_zip], broken = False\<rparr>"
  let ?tc = "[''work'', ''downloads'', ''c.zip'']"
  let ?tb = "[''work'', ''downloads'', ''b.zip'']"
  let ?wa = "snd (makedirs example_env ''downloads'' fresh_world)"
  let ?wb = "snd (makedirs example_env ''data'' ?wa)"
  let ?w1 = "snd (main_loop example_env [?a] ?wb)"
  have "fst (makedirs example_env ''downloads'' fresh_world) = Inr [''work'', ''downloads'']"
    by (simp add: run_defs example_env_def fresh_world_def)
  then have h1: "makedirs example_env ''downloads'' fresh_world = (Inr [''work'', ''downloads''], ?wa)"
    by (metis prod.collapse)
  have "fst (makedirs example_env ''data'' ?wa) = Inr [''work'', ''data'']"
    by (simp add: run_defs example_env_def fresh_world_def)
  then have h2: "makedirs example_env ''data'' ?wa = (Inr [''work'', ''data''], ?wb)"
    by (metis prod.collapse)
  have "fst (main_loop example_env [?a] ?wb) = Inr ()"
    by (simp add: run_defs example_env_def example_net_def fresh_world_def empty_zip_def)
  then have h3: "main_loop example_env [?a] ?wb = (Inr (), ?w1)"
    by (metis prod.collapse)
  have nc: "net example_env ''http://host/c.zip'' = Some ?rc"
    by (simp add: example_env_def example_net_def)
  have tc: "total_size (int_max_str_digits example_env) ?rc = Inr 9"
    by (simp add: total_size_def py_int_def strip_def isspace_def isdigit_def digits_value_def
        example_env_def)
  have f9: "\<bar>9\<bar> < (2::int) ^ 64" by simp
  have "locate (start (cwd example_env) (file_path ''c.zip'')) (file_path ''c.zip'') (fs ?w1) = Some ?tc
      \<and> fs ?w1 ?tc \<noteq> Some Dir"
    by (simp add: run_defs example_env_def example_net_def fresh_world_def empty_zip_def)
  then have oc: "open_wb (start (cwd example_env) (file_path ''c.zip'')) (file_path ''c.zip'') (fs ?w1) =
      Inr (?tc, (fs ?w1)(?tc \<mapsto> File []))"
    by (simp add: open_wb_Inr)
  have uc: "unzip example_env (concat (chunks ?rc)) = None"
    by (simp add: example_env_def empty_zip_def hi_zip_def)
  have r: "fst (main example_env (Inr [?a, ?c, ?b]) fresh_world) = Inl BadZipFile"
    by (simp add: run_defs example_env_def example_net_def fresh_world_def empty_zip_def)
  have e: "map extracted_line [?a] = [''Extracted: downloads/a.zip to data/a'']"
    "map label [?a] = [''a.zip'']" "label ?c = ''c.zip''"
    by (simp_all add: extracted_line_def label_def file_path_def join_def
        extract_to_def zip_name_def basename_def splitext_def Let_def)
  have k1: "makedirs example_env ''downloads'' ready_world = (Inr [''work'', ''downloads''], ready_world)"
    by (simp add: makedirs_def start_def example_env_def ready_world_def fun_upd_twist)
  have k2: "makedirs example_env ''data'' ready_world = (Inr [''work'', ''data''], ready_world)"
    by (simp add: makedirs_def start_def example_env_def ready_world_def fun_upd_twist)
  have k3: "main_loop example_env [] ready_world = (Inr (), ready_world)" by simp
  have nb: "net example_env ''http://host/b.zip'' = Some ?rb"
    by (simp add: example_env_def example_net_def)
  have tb: "total_size (int_max_str_digits example_env) ?rb = Inr 22"
    by (simp add: total_size_def py_int_def strip_def isspace_def isdigit_def digits_value_def
        example_env_def)
  have f22: "\<bar>22\<bar> < (2::int) ^ 64" by simp
  have ob: "open_wb (start (cwd example_env) (file_path ''b.zip'')) (file_path ''b.zip'') (fs ready_world) =
      Inr (?tb, (fs ready_world)(?tb \<mapsto> File []))"
    by (simp add: open_wb_def locate_def start_def example_env_def ready_world_def file_path_def
        join_def)
  have ub: "unzip example_env (concat (chunks ?rb)) = Some []"
    by (simp add: example_env_def)
  have mb: "mknodes (start (cwd example_env) (extract_to (file_path ''b.zip'') ''data''))
       (split_sep (extract_to (file_path ''b.zip'') ''data''))
       ((fs ready_world)(?tb \<mapsto> File (concat (chunks ?rb)))) =
     (Inr [''work'', ''data'', ''b''],
      (fs ready_world)(?tb \<mapsto> File (concat (chunks ?rb)), [''work'', ''data''] \<mapsto> Dir,
         [''work'', ''data'', ''b''] \<mapsto> Dir))"
    by (simp add: run_defs example_env_def ready_world_def)
  have xb: "extractall [''work'', ''data'', ''b''] []
      ((fs ready_world)(?tb \<mapsto> File (concat (chunks ?rb)), [''work'', ''data''] \<mapsto> Dir,
         [''work'', ''data'', ''b''] \<mapsto> Dir)) =
     (Inr (), (fs ready_world)(?tb \<mapsto> File (concat (chunks ?rb)), [''work'', ''data''] \<mapsto> Dir,
         [''work'', ''data'', ''b''] \<mapsto> Dir))"
    by simp
  have fp: "file_path ''b.zip'' = ''downloads/b.zip''" by (simp add: file_path_def join_def)
  have bn: "basename ''downloads/b.zip'' = ''b.zip''" by (simp add: basename_def Let_def)
  note one = non_zip_body_is_fatal[OF h1 h2 h3 _ _ nc _ tc f9 oc, of ?c "[?b]"]
  let ?g = "(fs ready_world)(?tb \<mapsto> File (concat (chunks ?rb)), [''work'', ''data''] \<mapsto> Dir,
         [''work'', ''data'', ''b''] \<mapsto> Dir)"
  note two = non_zip_body_is_fatal[where ms = "[]" and base = "[''work'', ''data'', ''b'']"
      and ?g1.0 = ?g and ?g2.0 = ?g and post = "[]", OF k1 k2 k3 _ _ nb _ tb f22 ob, of ?b]
  have A: "fs (snd (main example_env (Inr [?a, ?c, ?b]) fresh_world)) ?tc =
        Some (File [78, 111, 116, 32, 70, 111, 117, 110, 100]) \<and>
      map bar_desc (bars (snd (main example_env (Inr [?a, ?c, ?b]) fresh_world))) = [''a.zip'', ''c.zip''] \<and>
      console (snd (main example_env (Inr [?a, ?c, ?b]) fresh_world)) =
        [''Extracted: downloads/a.zip to data/a'']"
    using one uc e by (auto simp: fresh_world_def)
  have B: "download_file example_env (Some ''http://host/b.zip'') ''downloads/b.zip'' ready_world =
     (Inr (),
      ready_world\<lparr>fs := (fs ready_world)(?tb \<mapsto> File empty_zip),
        bars := [\<lparr>bar_total = 22, bar_n = 22, bar_desc = ''b.zip''\<rparr>]\<rparr>)"
    using two fp bn by (simp add: ready_world_def empty_zip_def)
  have C: "fst (process_file example_env ?b ready_world) = Inr ()"
    using two ub mb xb by simp
  show ?thesis using r A B C by simp
qed

text \<open>
  C1 as stated fails: the first URL answers 404 with an (empty) archive as its
  body; the run returns normally, the body is kept as \<^verbatim>\<open>downloads/b.zip\<close>, and the second
  element is downloaded and extracted.
\<close>

theorem non_success_status_is_not_fatal:
  "map_option status_code (net example_env ''http://host/b.zip'') = Some 404 \<and>
   fst (main example_env (Inr (rev example_manifest)) fresh_world) = Inr () \<and>
   trace (snd (main example_env (Inr (rev example_manifest)) fresh_world)) =
     [Begin (Download (Some ''http://host/b.zip'') ''downloads/b.zip''),
      End (Download (Some ''http://host/b.zip'') ''downloads/b.zip''),
      Begin (Extract ''downloads/b.zip'' ''data''), End (Extract ''downloads/b.zip'' ''data''),
      Begin (Download (Some ''http://host/a.zip'') ''downloads/a.zip''),
      End (Download (Some ''http://host/a.zip'') ''downloads/a.zip''),
      Begin (Extract ''downloads/a.zip'' ''data''), End (Extract ''downloads/a.zip'' ''data'')] \<and>
   fs (snd (main example_env (Inr (rev example_manifest)) fresh_world))
     [''work'', ''downloads'', ''b.zip''] = Some (File empty_zip)"
  by (simp add: run_defs example_env_def example_net_def example_manifest_def fresh_world_def
        empty_zip_def)

text \<open>
  C5. When the element after \<open>pre\<close> fails, the script ends with that error in exactly
  the state the failing call left: nothing is undone and nothing after it runs. Every
  file and folder present before the failing element is still there, of the same kind;
  in particular the artifact and the extraction folder of every earlier element. The
  calls recorded are those of the earlier elements and an initial part of the failing
  element's.
\<close>

theorem failure_aborts_without_rollback:
  assumes "makedirs E ''downloads'' w = (Inr d1, wa)"
    and "makedirs E ''data'' wa = (Inr d2, wb)"
    and "main_loop E pre wb = (Inr (), w1)"
    and "process_file E x w1 = (Inl e, w2)"
  shows "main E (Inr (pre @ x # post)) w = (Inl e, w2) \<and>
    fs_le (fs w1) (fs w2) \<and>
    list_all (has_outputs E (fs w2)) pre \<and>
    prefix (trace w2) (trace w @ concat (map calls_of pre) @ calls_of x)"
proof -
  have a: "main_loop E (pre @ x # post) wb = (Inl e, w2)"
    using assms(3,4) by (simp add: main_loop_append)
  have m: "main E (Inr (pre @ x # post)) w = (Inl e, w2)"
    using assms(1,2) a by (simp add: main_def)
  have l: "fs_le (fs w1) (fs w2)" using assms(4) by (rule process_file_fs_le)
  have h: "list_all (has_outputs E (fs w2)) pre"
    using main_loop_has_outputs[OF assms(3)] has_outputs_mono[OF l]
    by (simp add: list_all_iff)
  have t1: "trace w1 = trace w @ concat (map calls_of pre)"
    using main_loop_Inr_trace[OF assms(3)] makedirs_rest[OF assms(1)] makedirs_rest[OF assms(2)]
    by simp
  obtain k where "trace w2 = trace w1 @ take k (calls_of x)"
    using process_file_trace[OF assms(4)] by blast
  then have "prefix (trace w2) (trace w @ concat (map calls_of pre) @ calls_of x)"
    using t1 by (simp add: take_is_prefix)
  then show ?thesis using m l h by simp
qed

theorem failure_aborts_without_rollback_witness:
  "fst (main example_env
     (Inr [\<lparr>name_attr = Some ''a.zip'', url_elem = Some (Some ''http://host/a.zip'')\<rparr>,
            \<lparr>name_attr = Some ''c.zip'', url_elem = Some (Some ''http://host/c.zip'')\<rparr>,
            \<lparr>name_attr = Some ''b.zip'', url_elem = Some (Some ''http://host/b.zip'')\<rparr>])
     fresh_world) = Inl BadZipFile \<and>
   list_all (has_outputs example_env (fs (snd (main example_env
     (Inr [\<lparr>name_attr = Some ''a.zip'', url_elem = Some (Some ''http://host/a.zip'')\<rparr>,
            \<lparr>name_attr = Some ''c.zip'', url_elem = Some (Some ''http://host/c.zip'')\<rparr>,
            \<lparr>name_attr = Some ''b.zip'', url_elem = Some (Some ''http://host/b.zip'')\<rparr>])
     fresh_world))))
     [\<lparr>name_attr = Some ''a.zip'', url_elem = Some (Some ''http://host/a.zip'')\<rparr>]"
proof -
  let ?a = "\<lparr>name_attr = Some ''a.zip'', url_elem = Some (Some ''http://host/a.zip'')\<rparr>"
  let ?c = "\<lparr>name_attr = Some ''c.zip'', url_elem = Some (Some ''http://host/c.zip'')\<rparr>"
  let ?b = "\<lparr>name_attr = Some ''b.zip'', url_elem = Some (Some ''http://host/b.zip'')\<rparr>"
  let ?wa = "snd (makedirs example_env ''downloads'' fresh_world)"
  let ?wb = "snd (makedirs example_env ''data'' ?wa)"
  let ?w1 = "snd (main_loop example_env [?a] ?wb)"
  let ?w2 = "snd (process_file example_env ?c ?w1)"
  have "fst (makedirs example_env ''downloads'' fresh_world) = Inr [''work'', ''downloads'']"
    by (simp add: run_defs example_env_def fresh_world_def)
  then have h1: "makedirs example_env ''downloads'' fresh_world = (Inr [''work'', ''downloads''], ?wa)"
    by (metis prod.collapse)
  have "fst (makedirs example_env ''data'' ?wa) = Inr [''work'', ''data'']"
    by (simp add: run_defs example_env_def fresh_world_def)
  then have h2: "makedirs example_env ''data'' ?wa = (Inr [''work'', ''data''], ?wb)"
    by (metis prod.collapse)
  have "fst (main_loop example_env [?a] ?wb) = Inr ()"
    by (simp add: run_defs example_env_def example_net_def fresh_world_def empty_zip_def)
  then have h3: "main_loop example_env [?a] ?wb = (Inr (), ?w1)"
    by (metis prod.collapse)
  have "fst (process_file example_env ?c ?w1) = Inl BadZipFile"
    by (simp add: run_defs example_env_def example_net_def fresh_world_def empty_zip_def)
  then have h4: "process_file example_env ?c ?w1 = (Inl BadZipFile, ?w2)"
    by (metis prod.collapse)
  from failure_aborts_without_rollback[OF h1 h2 h3 h4, of "[?b]"] show ?thesis by simp
qed

section \<open>Running the script again\<close>




















section \<open>Where the members of an archive go\<close>

lemma strict_prefix_append: "ys \<noteq> [] \<Longrightarrow> strict_prefix xs (xs @ ys)"
  by (simp add: strict_prefix_def)

lemma mknodes_skip: "c = [] \<or> c = ''.'' \<Longrightarrow> mknodes cur (c # cs) f = mknodes cur cs f"
  by auto

lemma mknodes_step:
  assumes "c \<noteq> []" "c \<noteq> ''.''" "c \<noteq> ''..''"
  shows "mknodes cur (c # cs) f =
     (if kind_of (f (cur @ [c])) = Regular then (Inl OSError, f)
      else mknodes (cur @ [c]) cs (f(cur @ [c] \<mapsto> Dir)))"
proof (cases "f (cur @ [c])")
  case None
  then show ?thesis using assms by simp
next
  case (Some i)
  then show ?thesis using assms by (cases i) simp_all
qed

lemma mknodes_outside:
  "''..'' \<notin> set cs \<Longrightarrow> mknodes cur cs f = (r, f') \<Longrightarrow> \<not> strict_prefix cur t \<Longrightarrow> f' t = f t"
proof (induction cs arbitrary: cur f)
  case Nil
  then show ?case by simp
next
  case (Cons c cs)
  have d: "''..'' \<notin> set cs" and c: "c \<noteq> ''..''" using Cons.prems(1) by auto
  show ?case
  proof (cases "c = [] \<or> c = ''.''")
    case True
    have "mknodes cur cs f = (r, f')" using Cons.prems(2) unfolding mknodes_skip[OF True] .
    then show ?thesis using Cons.IH[OF d _ Cons.prems(3)] by blast
  next
    case False
    then have e: "c \<noteq> []" "c \<noteq> ''.''" by auto
    note step = mknodes_step[OF e c, of cur cs f]
    show ?thesis
    proof (cases "kind_of (f (cur @ [c])) = Regular")
      case True
      then show ?thesis using Cons.prems(2) unfolding step by simp
    next
      case nr: False
      then have m: "mknodes (cur @ [c]) cs (f(cur @ [c] \<mapsto> Dir)) = (r, f')"
        using Cons.prems(2) unfolding step by simp
      have s: "strict_prefix cur (cur @ [c])" by (simp add: strict_prefix_append)
      have a: "t \<noteq> cur @ [c]" using Cons.prems(3) s by auto
      have b: "\<not> strict_prefix (cur @ [c]) t"
        using Cons.prems(3) s prefix_order.less_trans by blast
      have "f' t = (f(cur @ [c] \<mapsto> Dir)) t"
        using Cons.IH[OF d m b] .
      then show ?thesis using a by simp
    qed
  qed
qed

lemma mknodes_result:
  "\<forall>c\<in>set cs. c \<noteq> [] \<and> c \<noteq> ''.'' \<and> c \<noteq> ''..'' \<Longrightarrow> mknodes cur cs f = (Inr d, f') \<Longrightarrow>
   d = cur @ cs"
proof (induction cs arbitrary: cur f)
  case Nil
  then show ?case by simp
next
  case (Cons c cs)
  have e: "c \<noteq> []" "c \<noteq> ''.''" "c \<noteq> ''..''"
    and r: "\<forall>c\<in>set cs. c \<noteq> [] \<and> c \<noteq> ''.'' \<and> c \<noteq> ''..''"
    using Cons.prems(1) by auto
  note step = mknodes_step[OF e, of cur cs f]
  have m: "mknodes (cur @ [c]) cs (f(cur @ [c] \<mapsto> Dir)) = (Inr d, f')"
    using Cons.prems(2) unfolding step by (simp split: if_splits)
  show ?case using Cons.IH[OF r m] by simp
qed

lemma arcname_proper: "\<forall>c\<in>set (arcname n). c \<noteq> [] \<and> c \<noteq> ''.'' \<and> c \<noteq> ''..''"
  unfolding arcname_def set_filter by blast

lemma arcname_butlast_proper: "\<forall>c\<in>set (butlast (arcname n)). c \<noteq> [] \<and> c \<noteq> ''.'' \<and> c \<noteq> ''..''"
  using arcname_proper by (meson in_set_butlastD)

lemma extract_member_dir:
  "is_dir (fst m) \<Longrightarrow> mknodes base (arcname (fst m)) f = (r1, f1) \<Longrightarrow>
   extract_member base m f = (case r1 of Inl e \<Rightarrow> (Inl e, f1) | Inr d \<Rightarrow> (Inr (), f1))"
  by (simp add: extract_member_def Let_def split: sum.splits)

lemma extract_member_unnamed:
  "\<not> is_dir (fst m) \<Longrightarrow> arcname (fst m) = [] \<Longrightarrow> extract_member base m f = (Inl OSError, f)"
  by (simp add: extract_member_def Let_def)

lemma extract_member_named:
  assumes "\<not> is_dir (fst m)" "arcname (fst m) \<noteq> []"
    "mknodes base (butlast (arcname (fst m))) f = (r1, f1)"
  shows "extract_member base m f =
     (case r1 of
        Inl e \<Rightarrow> (Inl e, f1)
      | Inr d \<Rightarrow>
          if f1 (base @ arcname (fst m)) = Some Dir then (Inl OSError, f1)
          else (Inr (), f1(base @ arcname (fst m) \<mapsto> File (snd m))))"
proof (cases r1)
  case (Inl e)
  then show ?thesis using assms by (simp add: extract_member_def Let_def)
next
  case (Inr d)
  have "d = base @ butlast (arcname (fst m))"
    using mknodes_result[OF arcname_butlast_proper assms(3)[unfolded Inr]] .
  then have t: "d @ [last (arcname (fst m))] = base @ arcname (fst m)" using assms(2) by simp
  show ?thesis
  proof (cases "f1 (base @ arcname (fst m))")
    case None
    then show ?thesis using assms Inr t by (simp add: extract_member_def Let_def)
  next
    case (Some i)
    then show ?thesis using assms Inr t by (cases i) (simp_all add: extract_member_def Let_def)
  qed
qed

lemma extract_member_written:
  assumes "\<not> is_dir (fst m)" "extract_member base m f = (Inr (), f')"
  shows "f' (base @ arcname (fst m)) = Some (File (snd m))"
proof -
  have ne: "arcname (fst m) \<noteq> []"
    using assms extract_member_unnamed[of m base f] by auto
  obtain r1 f1 where mk: "mknodes base (butlast (arcname (fst m))) f = (r1, f1)" by fastforce
  show ?thesis
    using assms(2) unfolding extract_member_named[OF assms(1) ne mk]
    by (cases r1) (auto split: if_splits)
qed

lemma extract_member_outside:
  assumes "extract_member base m f = (r, f')" "\<not> strict_prefix base t"
  shows "f' t = f t"
proof (cases "is_dir (fst m)")
  case True
  obtain r1 f1 where mk: "mknodes base (arcname (fst m)) f = (r1, f1)" by fastforce
  have "f' = f1" using assms(1) unfolding extract_member_dir[OF True mk] by (cases r1) auto
  moreover have "''..'' \<notin> set (arcname (fst m))" using arcname_proper by blast
  ultimately show ?thesis using mknodes_outside[OF _ mk assms(2)] by simp
next
  case False
  show ?thesis
  proof (cases "arcname (fst m) = []")
    case True
    then show ?thesis using assms(1) extract_member_unnamed[OF False True, of base f] by simp
  next
    case ne: False
    obtain r1 f1 where mk: "mknodes base (butlast (arcname (fst m))) f = (r1, f1)" by fastforce
    have "''..'' \<notin> set (butlast (arcname (fst m)))" using arcname_butlast_proper by blast
    then have o: "f1 t = f t" using mknodes_outside[OF _ mk assms(2)] by simp
    have "t \<noteq> base @ arcname (fst m)"
      using assms(2) strict_prefix_append[OF ne, of base] by auto
    then show ?thesis
      using assms(1) o unfolding extract_member_named[OF False ne mk]
      by (cases r1) (auto split: if_splits)
  qed
qed

lemma extractall_outside:
  "extractall base ms f = (r, f') \<Longrightarrow> \<not> strict_prefix base t \<Longrightarrow> f' t = f t"
proof (induction ms arbitrary: f)
  case Nil
  then show ?case by simp
next
  case (Cons m ms)
  obtain r1 f1 where e: "extract_member base m f = (r1, f1)" by fastforce
  have o: "f1 t = f t" using extract_member_outside[OF e Cons.prems(2)] .
  show ?case
  proof (cases r1)
    case (Inl x)
    then show ?thesis using Cons.prems(1) e o by simp
  next
    case (Inr u)
    then have "extractall base ms f1 = (r, f')" using Cons.prems(1) e by simp
    then show ?thesis using Cons.IH Cons.prems(2) o by simp
  qed
qed

lemma extract_member_keeps:
  assumes "extract_member base m f = (r, f')" "f t = Some (File b)"
    "t \<noteq> base @ arcname (fst m)"
  shows "f' t = Some (File b)"
proof (cases "is_dir (fst m)")
  case True
  obtain r1 f1 where mk: "mknodes base (arcname (fst m)) f = (r1, f1)" by fastforce
  have "f' = f1" using assms(1) unfolding extract_member_dir[OF True mk] by (cases r1) auto
  then show ?thesis using mknodes_files[OF mk assms(2)] by simp
next
  case False
  show ?thesis
  proof (cases "arcname (fst m) = []")
    case True
    then show ?thesis using assms(1,2) extract_member_unnamed[OF False True, of base f] by simp
  next
    case ne: False
    obtain r1 f1 where mk: "mknodes base (butlast (arcname (fst m))) f = (r1, f1)" by fastforce
    have o: "f1 t = Some (File b)" using mknodes_files[OF mk assms(2)] .
    show ?thesis
      using assms(1,3) o unfolding extract_member_named[OF False ne mk]
      by (cases r1) (auto split: if_splits)
  qed
qed

lemma extractall_keeps:
  "extractall base ms f = (r, f') \<Longrightarrow> f t = Some (File b) \<Longrightarrow>
   \<forall>m\<in>set ms. t \<noteq> base @ arcname (fst m) \<Longrightarrow> f' t = Some (File b)"
proof (induction ms arbitrary: f)
  case Nil
  then show ?case by simp
next
  case (Cons m ms)
  obtain r1 f1 where e: "extract_member base m f = (r1, f1)" by fastforce
  have o: "f1 t = Some (File b)"
    using extract_member_keeps[OF e Cons.prems(2)] Cons.prems(3) by simp
  show ?case
  proof (cases r1)
    case (Inl x)
    then show ?thesis using Cons.prems(1) e o by simp
  next
    case (Inr u)
    then have "extractall base ms f1 = (r, f')" using Cons.prems(1) e by simp
    then show ?thesis using Cons.IH[of f1] o Cons.prems(3) by simp
  qed
qed

lemma extractall_present:
  "extractall base ms f = (Inr (), f') \<Longrightarrow> m \<in> set ms \<Longrightarrow> \<not> is_dir (fst m) \<Longrightarrow>
   kind_of (f' (base @ arcname (fst m))) = Regular"
proof (induction ms arbitrary: f)
  case Nil
  then show ?case by simp
next
  case (Cons m0 ms)
  obtain r1 f1 where e: "extract_member base m0 f = (r1, f1)" by fastforce
  have r1: "r1 = Inr ()" using Cons.prems(1) e by (cases r1) auto
  then have x: "extractall base ms f1 = (Inr (), f')" using Cons.prems(1) e by simp
  show ?case
  proof (cases "m = m0")
    case True
    have "f1 (base @ arcname (fst m)) = Some (File (snd m))"
      using extract_member_written[OF Cons.prems(3)] e r1 True by simp
    then have "kind_of (f1 (base @ arcname (fst m))) = Regular" by simp
    then show ?thesis using fs_le_kind[OF extractall_le[OF x], of "base @ arcname (fst m)"] by simp
  next
    case False
    then have "m \<in> set ms" using Cons.prems(2) by simp
    then show ?thesis using Cons.IH[OF x] Cons.prems(3) by simp
  qed
qed

lemma extractall_written:
  "extractall base ms f = (Inr (), f') \<Longrightarrow> distinct (map (\<lambda>m. arcname (fst m)) ms) \<Longrightarrow>
   m \<in> set ms \<Longrightarrow> \<not> is_dir (fst m) \<Longrightarrow> f' (base @ arcname (fst m)) = Some (File (snd m))"
proof (induction ms arbitrary: f)
  case Nil
  then show ?case by simp
next
  case (Cons m0 ms)
  obtain r1 f1 where e: "extract_member base m0 f = (r1, f1)" by fastforce
  have r1: "r1 = Inr ()" using Cons.prems(1) e by (cases r1) auto
  then have x: "extractall base ms f1 = (Inr (), f')" using Cons.prems(1) e by simp
  show ?case
  proof (cases "m \<in> set ms")
    case True
    then show ?thesis using Cons.IH[OF x] Cons.prems(2,4) by simp
  next
    case False
    then have m: "m = m0" using Cons.prems(3) by simp
    have w: "f1 (base @ arcname (fst m)) = Some (File (snd m))"
      using extract_member_written[OF Cons.prems(4)] e r1 m by simp
    have "\<forall>m'\<in>set ms. base @ arcname (fst m) \<noteq> base @ arcname (fst m')"
      using Cons.prems(2) m by auto
    then show ?thesis using extractall_keeps[OF x w] by simp
  qed
qed

lemma file_path_example: "file_path ''example.zip'' = ''downloads/example.zip''"
  by (simp add: file_path_def join_def)

lemma extract_to_example: "extract_to ''downloads/example.zip'' ''data'' = ''data/example''"
  by (simp add: extract_to_def zip_name_def basename_def splitext_def join_def)

lemma locate_example:
  "locate (start wd ''downloads/example.zip'') ''downloads/example.zip'' f = Some t \<Longrightarrow>
   t = wd @ [''downloads'', ''example.zip'']"
  by (simp add: locate_def start_def split: if_splits)

lemma mknodes_example:
  assumes "mknodes (start wd ''data/example'') (split_sep ''data/example'') f = (Inr base, f1)"
  shows "base = wd @ [''data'', ''example''] \<and>
    f1 = f(wd @ [''data''] \<mapsto> Dir, wd @ [''data'', ''example''] \<mapsto> Dir)"
proof -
  have s: "split_sep ''data/example'' = [''data'', ''example'']" by simp
  have w: "start wd ''data/example'' = wd" by (simp add: start_def)
  have a: "mknodes wd [''data'', ''example''] f =
      (if kind_of (f (wd @ [''data''])) = Regular then (Inl OSError, f)
       else if kind_of ((f(wd @ [''data''] \<mapsto> Dir)) (wd @ [''data'', ''example''])) = Regular
         then (Inl OSError, f(wd @ [''data''] \<mapsto> Dir))
       else (Inr (wd @ [''data'', ''example'']),
             f(wd @ [''data''] \<mapsto> Dir, wd @ [''data'', ''example''] \<mapsto> Dir)))"
    by (simp add: mknodes_step del: mknodes.simps(2))
  show ?thesis using assms unfolding s w a by (auto split: if_splits)
qed

text \<open>
  C3. An element named \<^verbatim>\<open>example.zip\<close> that is processed without error: the download
  is called with the destination \<^verbatim>\<open>downloads/example.zip\<close> and the extraction with that
  path and \<^verbatim>\<open>data\<close>; afterwards \<^verbatim>\<open>downloads/example.zip\<close> holds the response body,
  \<^verbatim>\<open>data/example\<close> is a directory, every file member of the archive is a regular file
  below it (with the member's contents when no two members share a name), and nothing
  else has changed but the folder \<^verbatim>\<open>data\<close> and nodes inside \<^verbatim>\<open>data/example\<close>.
\<close>

theorem example_zip_goes_to_its_paths:
  assumes "process_file E \<lparr>name_attr = Some ''example.zip'', url_elem = Some (Some u)\<rparr> w = (Inr (), w')"
    and "net E u = Some r" and "unzip E (concat (chunks r)) = Some ms"
  shows "trace w' = trace w @
      [Begin (Download (Some u) ''downloads/example.zip''),
       End (Download (Some u) ''downloads/example.zip''),
       Begin (Extract ''downloads/example.zip'' ''data''),
       End (Extract ''downloads/example.zip'' ''data'')] \<and>
    fs w' (cwd E @ [''downloads'', ''example.zip'']) = Some (File (concat (chunks r))) \<and>
    fs w' (cwd E @ [''data'', ''example'']) = Some Dir \<and>
    (\<forall>m\<in>set ms. \<not> is_dir (fst m) \<longrightarrow>
       kind_of (fs w' (cwd E @ [''data'', ''example''] @ arcname (fst m))) = Regular) \<and>
    (distinct (map (\<lambda>m. arcname (fst m)) ms) \<longrightarrow>
       (\<forall>m\<in>set ms. \<not> is_dir (fst m) \<longrightarrow>
          fs w' (cwd E @ [''data'', ''example''] @ arcname (fst m)) = Some (File (snd m)))) \<and>
    (\<forall>t. fs w' t \<noteq> fs w t \<longrightarrow>
       t = cwd E @ [''downloads'', ''example.zip''] \<or> t = cwd E @ [''data''] \<or>
       prefix (cwd E @ [''data'', ''example'']) t)"
  using assms(1)
proof (rule process_file_Inr)
  fix u' nm and r' :: response and tsize t base f1 ms' f2
  let ?x = "\<lparr>name_attr = Some ''example.zip'', url_elem = Some (Some u)\<rparr>"
  let ?A = "cwd E @ [''downloads'', ''example.zip'']"
  let ?D = "cwd E @ [''data'']"
  let ?B = "cwd E @ [''data'', ''example'']"
  assume url: "url_elem ?x = Some (Some u')" and nm: "name_attr ?x = Some nm"
    and net: "net E u' = Some r'"
    and lo: "locate (start (cwd E) (file_path nm)) (file_path nm) (fs w) = Some t"
    and mk: "mknodes (start (cwd E) (extract_to (file_path nm) ''data''))
       (split_sep (extract_to (file_path nm) ''data''))
       ((fs w)(t \<mapsto> File (concat (chunks r')))) = (Inr base, f1)"
    and uz: "unzip E (concat (chunks r')) = Some ms'"
    and ex: "extractall base ms' f1 = (Inr (), f2)"
    and w': "w' = w\<lparr>fs := f2,
        bars := bars w @ [\<lparr>bar_total = tsize, bar_n = length (concat (chunks r')),
                           bar_desc = basename (file_path nm)\<rparr>],
        console := console w @ [''Extracted: '' @ file_path nm @ '' to '' @
                       extract_to (file_path nm) ''data''],
        trace := trace w @ calls_of ?x\<rparr>"
  have u': "u' = u" and n: "nm = ''example.zip''" using url nm by simp_all
  have r': "r' = r" using net assms(2) u' by simp
  have ms': "ms' = ms" using uz assms(3) r' by simp
  have p: "file_path nm = ''downloads/example.zip''" unfolding n by (rule file_path_example)
  have q: "extract_to (file_path nm) ''data'' = ''data/example''"
    unfolding p by (rule extract_to_example)
  have t: "t = ?A" using lo unfolding p by (rule locate_example)
  let ?f = "(fs w)(?A \<mapsto> File (concat (chunks r)))"
  have b: "base = ?B" and f1: "f1 = ?f(?D \<mapsto> Dir, ?B \<mapsto> Dir)"
    using mknodes_example[OF mk[unfolded q t r']] by simp_all
  have x: "extractall ?B ms f1 = (Inr (), f2)" using ex b ms' by simp
  have f2: "fs w' = f2" using w' by simp
  have tr: "trace w' = trace w @
      [Begin (Download (Some u) ''downloads/example.zip''),
       End (Download (Some u) ''downloads/example.zip''),
       Begin (Extract ''downloads/example.zip'' ''data''),
       End (Extract ''downloads/example.zip'' ''data'')]"
    using w' by (simp add: calls_of_def file_path_example)
  have nsA: "\<not> strict_prefix ?B ?A" by (simp add: strict_prefix_def)
  have "f2 ?A = f1 ?A" using extractall_outside[OF x nsA] .
  then have art: "f2 ?A = Some (File (concat (chunks r)))" unfolding f1 by simp
  have "f1 ?B = Some Dir" unfolding f1 by simp
  then have fold: "f2 ?B = Some Dir" using fs_le_Dir[OF extractall_le[OF x]] by blast
  have pres: "\<forall>m\<in>set ms. \<not> is_dir (fst m) \<longrightarrow>
       kind_of (f2 (?B @ arcname (fst m))) = Regular"
    using extractall_present[OF x] by blast
  have cont: "distinct (map (\<lambda>m. arcname (fst m)) ms) \<longrightarrow>
       (\<forall>m\<in>set ms. \<not> is_dir (fst m) \<longrightarrow> f2 (?B @ arcname (fst m)) = Some (File (snd m)))"
    using extractall_written[OF x] by blast
  have conf: "t' = ?A \<or> t' = ?D \<or> prefix ?B t'" if d: "f2 t' \<noteq> fs w t'" for t'
  proof (cases "strict_prefix ?B t'")
    case True
    then show ?thesis by (simp add: strict_prefix_def)
  next
    case False
    then have "f2 t' = f1 t'" using extractall_outside[OF x] by blast
    then have "f1 t' \<noteq> fs w t'" using d by simp
    then have "t' = ?A \<or> t' = ?D \<or> t' = ?B" unfolding f1 by (auto split: if_splits)
    then show ?thesis by auto
  qed
  show ?thesis
    unfolding f2 using tr art fold pres cont conf
    by (simp only: append_assoc) blast
qed

theorem example_zip_goes_to_its_paths_witness:
  "fs (snd (process_file example_env
        \<lparr>name_attr = Some ''example.zip'', url_elem = Some (Some ''http://host/example.zip'')\<rparr>
        ready_world)) [''work'', ''downloads'', ''example.zip''] = Some (File hi_zip) \<and>
   fs (snd (process_file example_env
        \<lparr>name_attr = Some ''example.zip'', url_elem = Some (Some ''http://host/example.zip'')\<rparr>
        ready_world)) [''work'', ''data'', ''example''] = Some Dir \<and>
   fs (snd (process_file example_env
        \<lparr>name_attr = Some ''example.zip'', url_elem = Some (Some ''http://host/example.zip'')\<rparr>
        ready_world)) [''work'', ''data'', ''example'', ''x''] = Some (File [104, 105])"
proof -
  let ?x = "\<lparr>name_attr = Some ''example.zip'', url_elem = Some (Some ''http://host/example.zip'')\<rparr>"
  let ?r = "\<lparr>status_code = 200, content_length = Some ''102'',
              chunks = [take 64 hi_zip, drop 64 hi_zip], broken = False\<rparr>"
  have "fst (process_file example_env ?x ready_world) = Inr ()"
    by (simp add: run_defs extract_member_def arcname_def is_dir_def example_env_def
        example_net_def ready_world_def empty_zip_def)
  then have p: "process_file example_env ?x ready_world =
      (Inr (), snd (process_file example_env ?x ready_world))"
    by (metis prod.collapse)
  have n: "net example_env ''http://host/example.zip'' = Some ?r"
    by (simp add: example_env_def example_net_def)
  have z: "unzip example_env (concat (chunks ?r)) = Some [(''x'', [104, 105])]"
    by (simp add: example_env_def hi_zip_def empty_zip_def)
  from example_zip_goes_to_its_paths[OF p n z] show ?thesis
    by (simp add: arcname_def is_dir_def example_env_def hi_zip_def)
qed

end
